theory Spec2Isabelle
  imports Main "HOL-Library.Word"
begin

unbundle bit_operations_syntax

section \<open>The mcba\_usb driver: data model\<close>

text \<open>
  A shallow embedding of \<^verbatim>\<open>mcba_usb.c\<close>, the SocketCAN driver of the Microchip CAN BUS
  Analyzer. Kernel integers are words of their width; the driver's private structure
  \<^verbatim>\<open>struct mcba_priv\<close> is a record that every function takes and returns; the calls to the
  kernel (logging, the network queue, the echo buffers, USB submission) are appended to a
  trace in the order the code makes them.
\<close>

type_synonym u8 = "8 word"
type_synonym u16 = "16 word"
type_synonym u32 = "32 word"
type_synonym u64 = "64 word"

subsection \<open>Constants of the header\<close>

text \<open>
  The driver includes \<^verbatim>\<open>mcba_usb.h\<close>, which is not among the sources. Its constants are
  parameters of the model, collected in one record; nothing is assumed about their values
  except where a theorem says so.
\<close>

record mcba_hdr =
  MCBA_CTX_FREE :: nat
  MCBA_VER_UNDEFINED :: u8
  MCBA_VER_USB_MAJOR :: u8
  MCBA_VER_USB_MINOR :: u8
  MCBA_VER_CAN_MAJOR :: u8
  MCBA_VER_CAN_MINOR :: u8
  MCBA_DLC_MASK :: u8
  MCBA_DLC_RTR_MASK :: u8
  MCBA_CAN_RTR_MASK :: u32
  MCBA_IS_USB_DEBUG :: bool
  MCBA_IS_CAN_DEBUG :: bool
  MCBA_USB_MSG_SIZE :: nat
  MBCA_CMD_I_AM_ALIVE_FROM_CAN :: u8
  MBCA_CMD_I_AM_ALIVE_FROM_USB :: u8
  MBCA_CMD_RECEIVE_MESSAGE :: u8
  MBCA_CMD_NOTHING_TO_SEND :: u8
  MBCA_CMD_TRANSMIT_MESSAGE_RSP :: u8
  MBCA_CMD_TRANSMIT_MESSAGE_EV :: u8
  MBCA_CMD_CHANGE_BIT_RATE :: u8
  MBCA_CMD_READ_FW_VERSION :: u8
  MBCA_CMD_SETUP_TERMINATION_RESISTANCE :: u8

text \<open>
  \<^verbatim>\<open>MCBA_USB_MSG_SIZE\<close> stands for \<^verbatim>\<open>sizeof(struct mcba_usb_msg)\<close>. The errno values are
  those of the kernel.
\<close>

definition ENOENT :: int where "ENOENT = 2"
definition ENODEV :: int where "ENODEV = 19"
definition EINVAL :: int where "EINVAL = 22"
definition ESHUTDOWN :: int where "ESHUTDOWN = 108"

text \<open>
  Modelled from the spec: \<^verbatim>\<open>MCBA_CAN_CLOCK\<close>, a constant of the missing header. The
  spec divides by the clock in MHz without giving its value; the driver's bitrate labels
  carry the suffix \<^verbatim>\<open>_40MHZ\<close>, and the property of the calculation is stated for a
  clock of 40 MHz.
\<close>

definition MCBA_CAN_CLOCK :: u32 where
  "MCBA_CAN_CLOCK = 40000000"

subsection \<open>Messages\<close>

text \<open>
  \<^verbatim>\<open>struct mcba_usb_msg_can\<close>, with the fields the driver reads and writes. The field
  \<open>mc_after_data\<close> holds the bytes that lie behind \<^verbatim>\<open>data[8]\<close> in memory (the rest of the
  record and of the buffer): a copy that is longer than the array reads them. Field names
  carry a prefix, since a record's fields are global names.
\<close>

record mcba_usb_msg_can =
  mc_cmdId :: u8
  mc_eidh :: u8
  mc_eidl :: u8
  mc_sidh :: u8
  mc_sidl :: u8
  mc_dlc :: u8
  mc_data :: "u8 list"
  mc_after_data :: "u8 list"

record mcba_usb_msg_keep_alive_usb =
  kau_termination_state :: u8
  kau_soft_ver_major :: u8
  kau_soft_ver_minor :: u8

record mcba_usb_msg_keep_alive_can =
  kac_tx_err_cnt :: u8
  kac_rx_err_cnt :: u8
  kac_rx_buff_ovfl :: u8
  kac_tx_bus_off :: u8
  kac_can_bitrate_hi :: u8
  kac_can_bitrate_lo :: u8
  kac_rx_lost_hi :: u8
  kac_rx_lost_lo :: u8
  kac_can_stat :: u8
  kac_soft_ver_major :: u8
  kac_soft_ver_minor :: u8
  kac_debug_mode :: u8
  kac_test_complete :: u8
  kac_test_result :: u8

text \<open>\<^verbatim>\<open>struct can_frame\<close>: \<open>cf_data\<close> is the memory from \<^verbatim>\<open>cf->data\<close> on.\<close>

record can_frame =
  can_id :: u32
  can_dlc :: u8
  cf_data :: "u8 list"

text \<open>
  The messages the driver hands to \<^verbatim>\<open>mcba_usb_xmit\<close>: the CAN message of
  \<^verbatim>\<open>mcba_usb_start_xmit\<close> and the three commands, each with the fields its sender sets
  (command id first).
\<close>

datatype mcba_usb_msg =
  Msg_can mcba_usb_msg_can
  | Msg_change_bitrate u8 u8 u8
  | Msg_fw_ver u8 u8
  | Msg_termination u8 u8

text \<open>
  The macros of the header that pack and unpack a CAN identifier. Their bodies are not in
  the sources, so they are parameters too.
\<close>

record mcba_id_macros =
  MCBA_RX_IS_EXID :: "mcba_usb_msg_can \<Rightarrow> bool"
  MCBA_RX_IS_RTR :: "mcba_usb_msg_can \<Rightarrow> bool"
  MCBA_CAN_GET_EID :: "mcba_usb_msg_can \<Rightarrow> u32"
  MCBA_CAN_GET_SID :: "mcba_usb_msg_can \<Rightarrow> u32"
  MCBA_TX_IS_EXID :: "can_frame \<Rightarrow> bool"
  MCBA_TX_IS_RTR :: "can_frame \<Rightarrow> bool"
  MCBA_SET_E_SIDL :: "u32 \<Rightarrow> u8"
  MCBA_SET_E_SIDH :: "u32 \<Rightarrow> u8"
  MCBA_SET_EIDL :: "u32 \<Rightarrow> u8"
  MCBA_SET_EIDH :: "u32 \<Rightarrow> u8"
  MCBA_SET_S_SIDL :: "u32 \<Rightarrow> u8"
  MCBA_SET_S_SIDH :: "u32 \<Rightarrow> u8"

text \<open>
  How a record of the receive buffer is read through the structures of the header: the
  argument is the memory from the record's first byte on.
\<close>

record mcba_layout =
  msg_cmdId :: "u8 list \<Rightarrow> u8"
  as_msg_can :: "u8 list \<Rightarrow> mcba_usb_msg_can"
  as_msg_keep_alive_usb :: "u8 list \<Rightarrow> mcba_usb_msg_keep_alive_usb"
  as_msg_keep_alive_can :: "u8 list \<Rightarrow> mcba_usb_msg_keep_alive_can"

subsection \<open>Calls to the kernel\<close>

datatype event =
  Info_usb_ka u8 u8 u8
  | Info_pic_usb_version u8 u8
  | Warn_usb_tested_only u8 u8
  | Info_can_ka mcba_usb_msg_keep_alive_can
  | Info_pic_can_version u8 u8
  | Warn_can_tested_only u8 u8
  | Warn_unsupported_msg u8
  | Err_format_error
  | Info_rx_urb_aborted int
  | Err_failed_resubmitting int
  | Err_no_memory_urbs
  | Err_no_memory_buffer
  | Warn_failed_tx_urb int
  | Info_tx_urb_aborted int
  | Err_unsupported_bitrate u32
  | Netif_rx can_frame
  | Netif_stop_queue
  | Netif_wake_queue
  | Netif_device_detach
  | Can_put_echo_skb nat
  | Can_get_echo_skb nat
  | Can_free_echo_skb nat
  | Dev_kfree_skb
  | Usb_submit_rx_urb

subsection \<open>The driver's state\<close>

text \<open>
  \<^verbatim>\<open>struct mcba_usb_ctx\<close>: \<open>ctx_priv\<close> says whether the back pointer is set.
\<close>

record mcba_usb_ctx =
  ndx :: nat
  ctx_priv :: bool
  ctx_dlc :: u8
  ctx_can :: bool

record can_bittiming =
  bitrate :: u32
  sample_point :: u32
  tq :: u32
  prop_seg :: u32
  phase_seg1 :: u32
  phase_seg2 :: u32
  sjw :: u32
  brp :: u32

record net_device_stats =
  rx_packets :: u64
  rx_bytes :: u64
  tx_packets :: u64
  tx_bytes :: u64
  tx_dropped :: u64

text \<open>
  \<^verbatim>\<open>struct mcba_priv\<close> with the parts of the network device the driver touches.
  \<open>tx_context\<close> is the array \<^verbatim>\<open>tx_context[MCBA_MAX_TX_URBS]\<close>, so its length is
  \<^verbatim>\<open>MCBA_MAX_TX_URBS\<close>. \<open>tx_submitted\<close> is the anchor of the transmit URBs in flight,
  each with the index of its context and its message. \<open>present\<close> is
  \<^verbatim>\<open>netif_device_present\<close>.
\<close>

record mcba_priv =
  tx_context :: "mcba_usb_ctx list"
  pic_usb_sw_ver_major :: u8
  pic_usb_sw_ver_minor :: u8
  pic_can_sw_ver_major :: u8
  pic_can_sw_ver_minor :: u8
  termination_state :: u8
  bec_txerr :: u16
  bec_rxerr :: u16
  bittiming :: can_bittiming
  stats :: net_device_stats
  tx_submitted :: "(nat \<times> mcba_usb_msg) list"
  present :: bool
  trace :: "event list"

abbreviation MCBA_MAX_TX_URBS :: "mcba_priv \<Rightarrow> nat" where
  "MCBA_MAX_TX_URBS p \<equiv> length (tx_context p)"

definition emit :: "event \<Rightarrow> mcba_priv \<Rightarrow> mcba_priv" where
  "emit e p = p\<lparr>trace := trace p @ [e]\<rparr>"

section \<open>Transmit context pool\<close>

text \<open>\<^verbatim>\<open>mcba_init_ctx\<close>: every context is marked free.\<close>

definition mcba_init_ctx :: "mcba_hdr \<Rightarrow> mcba_priv \<Rightarrow> mcba_priv" where
  "mcba_init_ctx h p =
     p\<lparr>tx_context := map (\<lambda>c. c\<lparr>ndx := MCBA_CTX_FREE h\<rparr>) (tx_context p)\<rparr>"

text \<open>
  The loop of \<^verbatim>\<open>mcba_usb_get_free_ctx\<close> from index \<open>i\<close> on: the first context whose
  \<open>ndx\<close> is \<^verbatim>\<open>MCBA_CTX_FREE\<close> gets its own index and the back pointer, and the loop
  breaks. The result is the index of the context returned, \<open>None\<close> for the null pointer.
\<close>

function get_free_ctx_from ::
  "nat \<Rightarrow> nat \<Rightarrow> mcba_usb_ctx list \<Rightarrow> nat option \<times> mcba_usb_ctx list" where
  "get_free_ctx_from free i cs =
     (if i < length cs then
        (if ndx (cs ! i) = free
         then (Some i, cs[i := (cs ! i)\<lparr>ndx := i, ctx_priv := True\<rparr>])
         else get_free_ctx_from free (Suc i) cs)
      else (None, cs))"
  by pat_completeness auto
termination
  by (relation "measure (\<lambda>(free, i, cs). length cs - i)") auto

declare get_free_ctx_from.simps [simp del]

definition mcba_usb_get_free_ctx :: "mcba_hdr \<Rightarrow> mcba_priv \<Rightarrow> nat option \<times> mcba_priv" where
  "mcba_usb_get_free_ctx h p =
     (case get_free_ctx_from (MCBA_CTX_FREE h) 0 (tx_context p) of
        (r, cs) \<Rightarrow> (r, p\<lparr>tx_context := cs\<rparr>))"

text \<open>\<^verbatim>\<open>mcba_usb_free_ctx\<close>, on the context at index \<open>i\<close> of the array.\<close>

definition mcba_usb_free_ctx :: "mcba_hdr \<Rightarrow> nat \<Rightarrow> mcba_priv \<Rightarrow> mcba_priv" where
  "mcba_usb_free_ctx h i p =
     p\<lparr>tx_context := (tx_context p)
        [i := (tx_context p ! i)\<lparr>ndx := MCBA_CTX_FREE h, ctx_priv := False,
                                 ctx_dlc := 0, ctx_can := False\<rparr>]\<rparr>"

section \<open>Transmit path\<close>

datatype netdev_tx = NETDEV_TX_OK | NETDEV_TX_BUSY

text \<open>
  What the USB core answers during one call of \<^verbatim>\<open>mcba_usb_xmit\<close>: \<^verbatim>\<open>usb_alloc_urb\<close>
  returns null, \<^verbatim>\<open>usb_alloc_coherent\<close> returns null, or \<^verbatim>\<open>usb_submit_urb\<close> returns the
  given value (0 for success).
\<close>

datatype usb_env = Urb_alloc_fails | Buf_alloc_fails | Submit_returns int

definition netif_device_detach :: "mcba_priv \<Rightarrow> mcba_priv" where
  "netif_device_detach p = emit Netif_device_detach (p\<lparr>present := False\<rparr>)"

text \<open>The labels \<^verbatim>\<open>nomem:\<close> and below of \<^verbatim>\<open>mcba_usb_xmit\<close>, for the context at \<open>i\<close>.\<close>

definition xmit_nomem :: "nat \<Rightarrow> mcba_priv \<Rightarrow> mcba_priv" where
  "xmit_nomem i p =
     (let p1 = emit (Can_free_echo_skb (ndx (tx_context p ! i))) p;
          p2 = emit Dev_kfree_skb p1
      in p2\<lparr>stats := (stats p2)\<lparr>tx_dropped := tx_dropped (stats p2) + 1\<rparr>\<rparr>)"

text \<open>
  The \<^verbatim>\<open>dlc\<close> field read through the cast to \<^verbatim>\<open>struct mcba_usb_msg_can\<close>. The cast is
  read only when an skb is given, which only \<^verbatim>\<open>mcba_usb_start_xmit\<close> does, with a CAN
  message; for a command the stored value is left as it is.
\<close>

definition msg_can_dlc :: "mcba_usb_msg \<Rightarrow> u8 \<Rightarrow> u8" where
  "msg_can_dlc m old = (case m of Msg_can c \<Rightarrow> mc_dlc c | _ \<Rightarrow> old)"

text \<open>
  \<^verbatim>\<open>mcba_usb_xmit\<close>; \<open>skb\<close> says whether the skb pointer is non-null. A URB that was
  submitted joins \<open>tx_submitted\<close>; one whose submission failed is unanchored again.
\<close>

definition mcba_usb_xmit ::
  "mcba_hdr \<Rightarrow> mcba_usb_msg \<Rightarrow> bool \<Rightarrow> usb_env \<Rightarrow> mcba_priv \<Rightarrow> netdev_tx \<times> mcba_priv" where
  "mcba_usb_xmit h usb_msg skb env p =
     (case mcba_usb_get_free_ctx h p of
        (None, p0) \<Rightarrow> (NETDEV_TX_BUSY, emit Netif_stop_queue p0)
      | (Some i, p0) \<Rightarrow>
          (let c = tx_context p0 ! i;
               p1 = (if skb
                     then (emit (Can_put_echo_skb (ndx c)) p0)
                            \<lparr>tx_context := (tx_context p0)
                               [i := c\<lparr>ctx_dlc := msg_can_dlc usb_msg (ctx_dlc c),
                                       ctx_can := True\<rparr>]\<rparr>
                     else p0\<lparr>tx_context := (tx_context p0)[i := c\<lparr>ctx_can := False\<rparr>]\<rparr>)
           in case env of
                Urb_alloc_fails \<Rightarrow> (NETDEV_TX_OK, xmit_nomem i (emit Err_no_memory_urbs p1))
              | Buf_alloc_fails \<Rightarrow> (NETDEV_TX_OK, xmit_nomem i (emit Err_no_memory_buffer p1))
              | Submit_returns err \<Rightarrow>
                  (if err \<noteq> 0
                   then (NETDEV_TX_OK,
                         xmit_nomem i (if err = - ENODEV then netif_device_detach p1
                                       else emit (Warn_failed_tx_urb err) p1))
                   else (NETDEV_TX_OK,
                         p1\<lparr>tx_submitted := tx_submitted p1 @ [(i, usb_msg)]\<rparr>))))"

definition mcba_usb_xmit_cmd ::
  "mcba_hdr \<Rightarrow> mcba_usb_msg \<Rightarrow> usb_env \<Rightarrow> mcba_priv \<Rightarrow> mcba_priv" where
  "mcba_usb_xmit_cmd h usb_msg env p = snd (mcba_usb_xmit h usb_msg False env p)"

definition mcba_usb_xmit_change_bitrate ::
  "mcba_hdr \<Rightarrow> u16 \<Rightarrow> usb_env \<Rightarrow> mcba_priv \<Rightarrow> mcba_priv" where
  "mcba_usb_xmit_change_bitrate h rate env p =
     mcba_usb_xmit_cmd h
       (Msg_change_bitrate (MBCA_CMD_CHANGE_BIT_RATE h)
          (ucast (drop_bit 8 (0xff00 AND rate))) (ucast (0xff AND rate)))
       env p"

definition mcba_usb_xmit_read_fw_ver ::
  "mcba_hdr \<Rightarrow> u8 \<Rightarrow> usb_env \<Rightarrow> mcba_priv \<Rightarrow> mcba_priv" where
  "mcba_usb_xmit_read_fw_ver h pic env p =
     mcba_usb_xmit_cmd h (Msg_fw_ver (MBCA_CMD_READ_FW_VERSION h) pic) env p"

definition mcba_usb_xmit_termination ::
  "mcba_hdr \<Rightarrow> u8 \<Rightarrow> usb_env \<Rightarrow> mcba_priv \<Rightarrow> mcba_priv" where
  "mcba_usb_xmit_termination h termination env p =
     mcba_usb_xmit_cmd h
       (Msg_termination (MBCA_CMD_SETUP_TERMINATION_RESISTANCE h) termination) env p"

text \<open>
  \<^verbatim>\<open>mcba_usb_start_xmit\<close>. The message is a local variable that is never cleared: the
  bytes behind \<^verbatim>\<open>data[8]\<close> are whatever the stack held, the argument \<open>stack\<close>.
\<close>

definition mcba_usb_start_xmit ::
  "mcba_hdr \<Rightarrow> mcba_id_macros \<Rightarrow> u8 list \<Rightarrow> can_frame \<Rightarrow> usb_env \<Rightarrow> mcba_priv
     \<Rightarrow> netdev_tx \<times> mcba_priv" where
  "mcba_usb_start_xmit h idm stack cf env p =
     (let ex = MCBA_TX_IS_EXID idm cf;
          d = (if MCBA_TX_IS_RTR idm cf then can_dlc cf OR MCBA_DLC_RTR_MASK h else can_dlc cf);
          usb_msg = \<lparr>mc_cmdId = MBCA_CMD_TRANSMIT_MESSAGE_EV h,
                     mc_eidh = (if ex then MCBA_SET_EIDH idm (can_id cf) else 0),
                     mc_eidl = (if ex then MCBA_SET_EIDL idm (can_id cf) else 0),
                     mc_sidh = (if ex then MCBA_SET_E_SIDH idm (can_id cf)
                                else MCBA_SET_S_SIDH idm (can_id cf)),
                     mc_sidl = (if ex then MCBA_SET_E_SIDL idm (can_id cf)
                                else MCBA_SET_S_SIDL idm (can_id cf)),
                     mc_dlc = d,
                     mc_data = take 8 (cf_data cf),
                     mc_after_data = stack\<rparr>
      in mcba_usb_xmit h (Msg_can usb_msg) True env p)"

text \<open>
  \<^verbatim>\<open>mcba_usb_write_bulk_callback\<close> for a URB whose context is at index \<open>i\<close> and whose
  status is \<open>status\<close>. Freeing the transfer buffer leaves no mark in the state.
\<close>

definition mcba_usb_write_bulk_callback ::
  "mcba_hdr \<Rightarrow> nat \<Rightarrow> int \<Rightarrow> mcba_priv \<Rightarrow> mcba_priv" where
  "mcba_usb_write_bulk_callback h i status p =
     (let c = tx_context p ! i in
      if ctx_can c \<and> \<not> present p then p
      else
        (let p1 = (if ctx_can c
                   then emit Netif_wake_queue
                          (emit (Can_get_echo_skb (ndx c))
                             (p\<lparr>stats := (stats p)
                                  \<lparr>tx_packets := tx_packets (stats p) + 1,
                                   tx_bytes := tx_bytes (stats p) + ucast (ctx_dlc c)\<rparr>\<rparr>))
                   else p);
             p2 = (if status \<noteq> 0 then emit (Info_tx_urb_aborted status) p1 else p1)
         in mcba_usb_free_ctx h i p2))"

text \<open>
  The USB core completes the URB at position \<open>k\<close> of the anchor: it leaves the anchor
  and its completion handler runs. Nothing happens when there is no such URB.
\<close>

definition tx_complete :: "mcba_hdr \<Rightarrow> nat \<Rightarrow> int \<Rightarrow> mcba_priv \<Rightarrow> mcba_priv" where
  "tx_complete h k status p =
     (if k < length (tx_submitted p)
      then mcba_usb_write_bulk_callback h (fst (tx_submitted p ! k)) status
             (p\<lparr>tx_submitted := take k (tx_submitted p) @ drop (Suc k) (tx_submitted p)\<rparr>)
      else p)"

section \<open>Receive path\<close>

text \<open>
  Copying \<open>n\<close> bytes from the memory \<open>src\<close> over the memory \<open>dst\<close>, both taken from the
  pointer on.
\<close>

definition memcpy :: "u8 list \<Rightarrow> u8 list \<Rightarrow> nat \<Rightarrow> u8 list" where
  "memcpy dst src n = take n src @ drop n dst"

text \<open>
  \<^verbatim>\<open>mcba_usb_process_can\<close>; \<open>skb_ok\<close> says whether \<^verbatim>\<open>alloc_can_skb\<close> returned a buffer,
  whose frame is zero-filled.
\<close>

definition mcba_usb_process_can ::
  "mcba_hdr \<Rightarrow> mcba_id_macros \<Rightarrow> bool \<Rightarrow> mcba_usb_msg_can \<Rightarrow> mcba_priv \<Rightarrow> mcba_priv" where
  "mcba_usb_process_can h idm skb_ok msg p =
     (if \<not> skb_ok then p
      else
        (let id0 = (if MCBA_RX_IS_EXID idm msg then MCBA_CAN_GET_EID idm msg
                    else MCBA_CAN_GET_SID idm msg);
             id1 = (if MCBA_RX_IS_RTR idm msg then id0 OR MCBA_CAN_RTR_MASK h else id0);
             d = mc_dlc msg AND MCBA_DLC_MASK h;
             cf = \<lparr>can_id = id1, can_dlc = d,
                   cf_data = memcpy (replicate 8 0) (mc_data msg @ mc_after_data msg) (unat d)\<rparr>
         in emit (Netif_rx cf)
              (p\<lparr>stats := (stats p)\<lparr>rx_packets := rx_packets (stats p) + 1,
                                     rx_bytes := rx_bytes (stats p) + ucast d\<rparr>\<rparr>)))"

definition mcba_usb_process_keep_alive_usb ::
  "mcba_hdr \<Rightarrow> mcba_usb_msg_keep_alive_usb \<Rightarrow> mcba_priv \<Rightarrow> mcba_priv" where
  "mcba_usb_process_keep_alive_usb h msg p =
     (let p1 = (if MCBA_IS_USB_DEBUG h
                then emit (Info_usb_ka (kau_termination_state msg) (kau_soft_ver_major msg)
                             (kau_soft_ver_minor msg)) p
                else p);
          p2 = (if MCBA_VER_UNDEFINED h = pic_usb_sw_ver_major p1 \<and>
                   MCBA_VER_UNDEFINED h = pic_usb_sw_ver_minor p1
                then
                  (let p3 = emit (Info_pic_usb_version (kau_soft_ver_major msg)
                                    (kau_soft_ver_minor msg)) p1
                   in if \<not> (MCBA_VER_USB_MAJOR h = kau_soft_ver_major msg) \<and>
                         MCBA_VER_USB_MINOR h = kau_soft_ver_minor msg
                      then emit (Warn_usb_tested_only (MCBA_VER_USB_MAJOR h)
                                   (MCBA_VER_USB_MINOR h)) p3
                      else p3)
                else p1)
      in p2\<lparr>pic_usb_sw_ver_major := kau_soft_ver_major msg,
            pic_usb_sw_ver_minor := kau_soft_ver_minor msg,
            termination_state := kau_termination_state msg\<rparr>)"

definition mcba_usb_process_keep_alive_can ::
  "mcba_hdr \<Rightarrow> mcba_usb_msg_keep_alive_can \<Rightarrow> mcba_priv \<Rightarrow> mcba_priv" where
  "mcba_usb_process_keep_alive_can h msg p =
     (let p1 = (if MCBA_IS_CAN_DEBUG h then emit (Info_can_ka msg) p else p);
          p2 = (if MCBA_VER_UNDEFINED h = pic_can_sw_ver_major p1 \<and>
                   MCBA_VER_UNDEFINED h = pic_can_sw_ver_minor p1
                then
                  (let p3 = emit (Info_pic_can_version (kac_soft_ver_major msg)
                                    (kac_soft_ver_minor msg)) p1
                   in if \<not> (MCBA_VER_CAN_MAJOR h = kac_soft_ver_major msg) \<and>
                         MCBA_VER_CAN_MINOR h = kac_soft_ver_minor msg
                      then emit (Warn_can_tested_only (MCBA_VER_CAN_MAJOR h)
                                   (MCBA_VER_CAN_MINOR h)) p3
                      else p3)
                else p1)
      in p2\<lparr>bec_txerr := ucast (kac_tx_err_cnt msg),
            bec_rxerr := ucast (kac_rx_err_cnt msg),
            pic_can_sw_ver_major := kac_soft_ver_major msg,
            pic_can_sw_ver_minor := kac_soft_ver_minor msg\<rparr>)"

text \<open>\<^verbatim>\<open>mcba_net_get_berr_counter\<close>: the return value and the counters written.\<close>

definition mcba_net_get_berr_counter :: "mcba_priv \<Rightarrow> int \<times> u16 \<times> u16" where
  "mcba_net_get_berr_counter p = (0, bec_txerr p, bec_rxerr p)"

text \<open>
  \<^verbatim>\<open>mcba_usb_process_rx\<close> on the memory \<open>m\<close> that starts at the record. The switch is an
  if-chain in the order of its cases.
\<close>

definition mcba_usb_process_rx ::
  "mcba_hdr \<Rightarrow> mcba_id_macros \<Rightarrow> mcba_layout \<Rightarrow> bool \<Rightarrow> u8 list \<Rightarrow> mcba_priv \<Rightarrow> mcba_priv" where
  "mcba_usb_process_rx h idm lay skb_ok m p =
     (let c = msg_cmdId lay m in
      if c = MBCA_CMD_I_AM_ALIVE_FROM_CAN h
        then mcba_usb_process_keep_alive_can h (as_msg_keep_alive_can lay m) p
      else if c = MBCA_CMD_I_AM_ALIVE_FROM_USB h
        then mcba_usb_process_keep_alive_usb h (as_msg_keep_alive_usb lay m) p
      else if c = MBCA_CMD_RECEIVE_MESSAGE h
        then mcba_usb_process_can h idm skb_ok (as_msg_can lay m) p
      else if c = MBCA_CMD_NOTHING_TO_SEND h then p
      else if c = MBCA_CMD_TRANSMIT_MESSAGE_RSP h then p
      else emit (Warn_unsupported_msg c) p)"

text \<open>
  A completed receive URB. \<open>alloc_ok pos\<close> says whether \<^verbatim>\<open>alloc_can_skb\<close> succeeds while
  the record at \<open>pos\<close> is processed.
\<close>

record urb =
  transfer_buffer :: "u8 list"
  actual_length :: nat
  status :: int

text \<open>
  The while loop of \<^verbatim>\<open>mcba_usb_read_bulk_callback\<close> from position \<open>pos\<close> on. It may
  run forever when the record size is 0, so it returns an option. Positions and lengths
  are natural numbers: a receive buffer is far shorter than the range of \<^verbatim>\<open>int\<close>.
\<close>

partial_function (option) read_bulk_loop ::
  "mcba_hdr \<Rightarrow> mcba_id_macros \<Rightarrow> mcba_layout \<Rightarrow> (nat \<Rightarrow> bool) \<Rightarrow> urb \<Rightarrow> nat \<Rightarrow> mcba_priv
     \<Rightarrow> mcba_priv option" where
  "read_bulk_loop h idm lay alloc_ok u pos p =
     (if pos < actual_length u then
        (if pos + MCBA_USB_MSG_SIZE h > actual_length u
         then Some (emit Err_format_error p)
         else read_bulk_loop h idm lay alloc_ok u (pos + MCBA_USB_MSG_SIZE h)
                (mcba_usb_process_rx h idm lay (alloc_ok pos)
                   (drop pos (transfer_buffer u)) p))
      else Some p)"

text \<open>
  The label \<^verbatim>\<open>resubmit_urb:\<close>; \<open>retval\<close> is what \<^verbatim>\<open>usb_submit_urb\<close> returns.
\<close>

definition resubmit_urb :: "int \<Rightarrow> mcba_priv \<Rightarrow> mcba_priv" where
  "resubmit_urb retval p =
     (let p1 = emit Usb_submit_rx_urb p in
      if retval = - ENODEV then netif_device_detach p1
      else if retval \<noteq> 0 then emit (Err_failed_resubmitting retval) p1
      else p1)"

definition mcba_usb_read_bulk_callback ::
  "mcba_hdr \<Rightarrow> mcba_id_macros \<Rightarrow> mcba_layout \<Rightarrow> (nat \<Rightarrow> bool) \<Rightarrow> int \<Rightarrow> urb \<Rightarrow> mcba_priv
     \<Rightarrow> mcba_priv option" where
  "mcba_usb_read_bulk_callback h idm lay alloc_ok retval u p =
     (if \<not> present p then Some p
      else if status u = 0 then
        (case read_bulk_loop h idm lay alloc_ok u 0 p of
           None \<Rightarrow> None
         | Some q \<Rightarrow> Some (resubmit_urb retval q))
      else if status u = - ENOENT \<or> status u = - ESHUTDOWN then Some p
      else Some (resubmit_urb retval (emit (Info_rx_urb_aborted (status u)) p)))"

section \<open>Bit timing\<close>

text \<open>
  \<^verbatim>\<open>mcba_net_calc_bittiming\<close> in 32-bit unsigned arithmetic. A division by zero traps
  the kernel: the result is \<open>None\<close>.
\<close>

definition mcba_net_calc_bittiming ::
  "u32 \<Rightarrow> u32 \<Rightarrow> u32 \<Rightarrow> u32 \<Rightarrow> u32 \<Rightarrow> can_bittiming \<Rightarrow> can_bittiming option" where
  "mcba_net_calc_bittiming sjw' prop seg1 seg2 brp' bt =
     (let bt1 = bt\<lparr>sjw := sjw', prop_seg := prop, phase_seg1 := seg1,
                   phase_seg2 := seg2, brp := brp'\<rparr>
      in if MCBA_CAN_CLOCK div 1000000 = 0 then None
         else
           (let bt2 = bt1\<lparr>tq := (brp bt1 * 1000) div (MCBA_CAN_CLOCK div 1000000)\<rparr>;
                bit = (sjw bt2 + prop_seg bt2 + phase_seg1 bt2 + phase_seg2 bt2) * tq bt2
            in if bit = 0 then None
               else
                 (let bt3 = bt2\<lparr>bitrate := 1000000000 div bit\<rparr>;
                      n = sjw bt3 + prop_seg bt3 + phase_seg1 bt3 + phase_seg2 bt3
                  in if n = 0 then None
                     else Some (bt3\<lparr>sample_point :=
                                      ((sjw bt3 + prop_seg bt3 + phase_seg1 bt3) * 1000) div n\<rparr>))))"

text \<open>
  The case labels \<^verbatim>\<open>MCBA_BITRATE_..._40MHZ\<close> of \<^verbatim>\<open>mcba_net_set_bittiming\<close> are constants
  of the missing header, hence parameters.
\<close>

record mcba_bitrates =
  MCBA_BITRATE_20_KBPS_40MHZ :: u32
  MCBA_BITRATE_33_3KBPS_40MHZ :: u32
  MCBA_BITRATE_50KBPS_40MHZ :: u32
  MCBA_BITRATE_80KBPS_40MHZ :: u32
  MCBA_BITRATE_83_3KBPS_40MHZ :: u32
  MCBA_BITRATE_100KBPS_40MHZ :: u32
  MCBA_BITRATE_125KBPS_40MHZ :: u32
  MCBA_BITRATE_150KBPS_40MHZ :: u32
  MCBA_BITRATE_175KBPS_40MHZ :: u32
  MCBA_BITRATE_200KBPS_40MHZ :: u32
  MCBA_BITRATE_225KBPS_40MHZ :: u32
  MCBA_BITRATE_250KBPS_40MHZ :: u32
  MCBA_BITRATE_275KBPS_40MHZ :: u32
  MCBA_BITRATE_300KBPS_40MHZ :: u32
  MCBA_BITRATE_500KBPS_40MHZ :: u32
  MCBA_BITRATE_625KBPS_40MHZ :: u32
  MCBA_BITRATE_800KBPS_40MHZ :: u32
  MCBA_BITRATE_1000KBPS_40MHZ :: u32

text \<open>
  The switch of \<^verbatim>\<open>mcba_net_set_bittiming\<close> as a table in the order of its cases: the
  label, the five arguments of \<^verbatim>\<open>mcba_net_calc_bittiming\<close> and the argument of
  \<^verbatim>\<open>mcba_usb_xmit_change_bitrate\<close>.
\<close>

type_synonym bitrate_case = "u32 \<times> (u32 \<times> u32 \<times> u32 \<times> u32 \<times> u32) \<times> u16"

definition bitrate_cases :: "mcba_bitrates \<Rightarrow> bitrate_case list" where
  "bitrate_cases br =
     [(MCBA_BITRATE_20_KBPS_40MHZ br, (1, 5, 8, 6, 100), 20),
      (MCBA_BITRATE_33_3KBPS_40MHZ br, (1, 8, 8, 8, 48), 33),
      (MCBA_BITRATE_50KBPS_40MHZ br, (1, 8, 7, 4, 40), 50),
      (MCBA_BITRATE_80KBPS_40MHZ br, (1, 8, 8, 8, 20), 80),
      (MCBA_BITRATE_83_3KBPS_40MHZ br, (1, 8, 8, 7, 20), 83),
      (MCBA_BITRATE_100KBPS_40MHZ br, (1, 1, 5, 3, 40), 100),
      (MCBA_BITRATE_125KBPS_40MHZ br, (1, 3, 8, 8, 16), 125),
      (MCBA_BITRATE_150KBPS_40MHZ br, (1, 8, 6, 4, 14), 150),
      (MCBA_BITRATE_175KBPS_40MHZ br, (1, 8, 6, 4, 12), 175),
      (MCBA_BITRATE_200KBPS_40MHZ br, (1, 8, 8, 8, 8), 200),
      (MCBA_BITRATE_225KBPS_40MHZ br, (1, 8, 8, 5, 8), 225),
      (MCBA_BITRATE_250KBPS_40MHZ br, (1, 3, 8, 8, 8), 250),
      (MCBA_BITRATE_275KBPS_40MHZ br, (1, 8, 8, 7, 6), 275),
      (MCBA_BITRATE_300KBPS_40MHZ br, (1, 8, 8, 5, 6), 300),
      (MCBA_BITRATE_500KBPS_40MHZ br, (1, 3, 8, 8, 4), 500),
      (MCBA_BITRATE_625KBPS_40MHZ br, (1, 1, 4, 2, 8), 625),
      (MCBA_BITRATE_800KBPS_40MHZ br, (1, 8, 8, 8, 2), 800),
      (MCBA_BITRATE_1000KBPS_40MHZ br, (1, 3, 8, 8, 2), 1000)]"

text \<open>
  \<^verbatim>\<open>mcba_net_set_bittiming\<close>: the return value and the state, \<open>None\<close> when the
  calculation traps. The first case whose label equals the requested bitrate is taken.
\<close>

definition mcba_net_set_bittiming ::
  "mcba_hdr \<Rightarrow> mcba_bitrates \<Rightarrow> usb_env \<Rightarrow> mcba_priv \<Rightarrow> (int \<times> mcba_priv) option" where
  "mcba_net_set_bittiming h br env p =
     (case find (\<lambda>c. fst c = bitrate (bittiming p)) (bitrate_cases br) of
        None \<Rightarrow> Some (- EINVAL, emit (Err_unsupported_bitrate (bitrate (bittiming p))) p)
      | Some (label, (sjw', prop, seg1, seg2, brp'), rate) \<Rightarrow>
          (case mcba_net_calc_bittiming sjw' prop seg1 seg2 brp' (bittiming p) of
             None \<Rightarrow> None
           | Some bt \<Rightarrow>
               Some (0, mcba_usb_xmit_change_bitrate h rate env (p\<lparr>bittiming := bt\<rparr>))))"

section \<open>States and runs the properties speak about\<close>

text \<open>
  The private structure as \<^verbatim>\<open>mcba_usb_probe\<close> leaves it before the device is started:
  \<^verbatim>\<open>alloc_candev\<close> returns zero-filled memory, here with \<open>n\<close> transmit contexts, and the
  probe sets the four version fields to \<^verbatim>\<open>MCBA_VER_UNDEFINED\<close>. The device is present and
  no transmit URB is in flight.
\<close>

definition probe_priv :: "mcba_hdr \<Rightarrow> nat \<Rightarrow> mcba_priv" where
  "probe_priv h n =
     \<lparr>tx_context = replicate n \<lparr>ndx = 0, ctx_priv = False, ctx_dlc = 0, ctx_can = False\<rparr>,
      pic_usb_sw_ver_major = MCBA_VER_UNDEFINED h,
      pic_usb_sw_ver_minor = MCBA_VER_UNDEFINED h,
      pic_can_sw_ver_major = MCBA_VER_UNDEFINED h,
      pic_can_sw_ver_minor = MCBA_VER_UNDEFINED h,
      termination_state = 0,
      bec_txerr = 0,
      bec_rxerr = 0,
      bittiming = \<lparr>bitrate = 0, sample_point = 0, tq = 0, prop_seg = 0, phase_seg1 = 0,
                    phase_seg2 = 0, sjw = 0, brp = 0\<rparr>,
      stats = \<lparr>rx_packets = 0, rx_bytes = 0, tx_packets = 0, tx_bytes = 0, tx_dropped = 0\<rparr>,
      tx_submitted = [],
      present = True,
      trace = []\<rparr>"

text \<open>
  One choice of the header's constants, for evaluating the model on concrete inputs: three
  transmit contexts fit under the free marker 3, the DLC mask keeps the four bits the
  spec gives the DLC field, and a record has 19 bytes. The general theorems hold for every
  header.
\<close>

definition hdr_example :: mcba_hdr where
  "hdr_example =
     \<lparr>MCBA_CTX_FREE = 3,
      MCBA_VER_UNDEFINED = 0xFF,
      MCBA_VER_USB_MAJOR = 2,
      MCBA_VER_USB_MINOR = 0,
      MCBA_VER_CAN_MAJOR = 2,
      MCBA_VER_CAN_MINOR = 3,
      MCBA_DLC_MASK = 0x0F,
      MCBA_DLC_RTR_MASK = 0x40,
      MCBA_CAN_RTR_MASK = 0x40000000,
      MCBA_IS_USB_DEBUG = False,
      MCBA_IS_CAN_DEBUG = False,
      MCBA_USB_MSG_SIZE = 19,
      MBCA_CMD_I_AM_ALIVE_FROM_CAN = 0xF5,
      MBCA_CMD_I_AM_ALIVE_FROM_USB = 0xF7,
      MBCA_CMD_RECEIVE_MESSAGE = 0xE3,
      MBCA_CMD_NOTHING_TO_SEND = 0xFF,
      MBCA_CMD_TRANSMIT_MESSAGE_RSP = 0xE2,
      MBCA_CMD_TRANSMIT_MESSAGE_EV = 0xA3,
      MBCA_CMD_CHANGE_BIT_RATE = 0xA1,
      MBCA_CMD_READ_FW_VERSION = 0xA9,
      MBCA_CMD_SETUP_TERMINATION_RESISTANCE = 0xA8\<rparr>"

text \<open>\<open>n\<close> calls of \<^verbatim>\<open>mcba_usb_get_free_ctx\<close> in a row: their results and the last state.\<close>

fun acquire_n :: "mcba_hdr \<Rightarrow> nat \<Rightarrow> mcba_priv \<Rightarrow> nat option list \<times> mcba_priv" where
  "acquire_n h 0 p = ([], p)"
| "acquire_n h (Suc n) p =
     (case mcba_usb_get_free_ctx h p of
        (r, p') \<Rightarrow> (case acquire_n h n p' of (rs, p'') \<Rightarrow> (r # rs, p'')))"

text \<open>The slot indices that the live contexts (those not marked free) report.\<close>

definition live_slots :: "mcba_hdr \<Rightarrow> mcba_priv \<Rightarrow> nat list" where
  "live_slots h p = filter (\<lambda>n. n \<noteq> MCBA_CTX_FREE h) (map ndx (tx_context p))"

text \<open>
  The pool states that initialisation, acquiring and releasing any context of the array
  can produce from \<open>p0\<close>.
\<close>

inductive pool_reach :: "mcba_hdr \<Rightarrow> mcba_priv \<Rightarrow> mcba_priv \<Rightarrow> bool" for h p0 where
  reach_init: "pool_reach h p0 (mcba_init_ctx h p0)"
| reach_acquire: "pool_reach h p0 p \<Longrightarrow> pool_reach h p0 (snd (mcba_usb_get_free_ctx h p))"
| reach_release: "pool_reach h p0 p \<Longrightarrow> i < length (tx_context p) \<Longrightarrow>
     pool_reach h p0 (mcba_usb_free_ctx h i p)"

text \<open>The pool invariant: a context is free or carries its own index.\<close>

definition pool_ok :: "nat \<Rightarrow> mcba_usb_ctx list \<Rightarrow> bool" where
  "pool_ok free cs = (\<forall>i<length cs. ndx (cs ! i) = free \<or> ndx (cs ! i) = i)"

text \<open>A keep-alive report of the CAN controller with the given counters and version.\<close>

definition ka_can_example :: "u8 \<Rightarrow> u8 \<Rightarrow> u8 \<Rightarrow> u8 \<Rightarrow> mcba_usb_msg_keep_alive_can" where
  "ka_can_example tx rx major minor =
     \<lparr>kac_tx_err_cnt = tx, kac_rx_err_cnt = rx, kac_rx_buff_ovfl = 0, kac_tx_bus_off = 0,
      kac_can_bitrate_hi = 0, kac_can_bitrate_lo = 0, kac_rx_lost_hi = 0, kac_rx_lost_lo = 0,
      kac_can_stat = 0, kac_soft_ver_major = major, kac_soft_ver_minor = minor,
      kac_debug_mode = 0, kac_test_complete = 0, kac_test_result = 0\<rparr>"

text \<open>
  The records number \<open>k\<close> to \<open>m - 1\<close> of a receive buffer, processed in their order: record
  \<open>i\<close> starts at byte \<open>i * MCBA_USB_MSG_SIZE\<close>.
\<close>

definition process_records ::
  "mcba_hdr \<Rightarrow> mcba_id_macros \<Rightarrow> mcba_layout \<Rightarrow> (nat \<Rightarrow> bool) \<Rightarrow> urb \<Rightarrow> nat \<Rightarrow> nat \<Rightarrow> mcba_priv
     \<Rightarrow> mcba_priv" where
  "process_records h idm lay alloc_ok u k m p =
     foldl (\<lambda>q i. mcba_usb_process_rx h idm lay (alloc_ok (i * MCBA_USB_MSG_SIZE h))
                     (drop (i * MCBA_USB_MSG_SIZE h) (transfer_buffer u)) q)
       p [k..<m]"

text \<open>How often \<^verbatim>\<open>netdev_err("format error")\<close> was called.\<close>

definition format_errors :: "mcba_priv \<Rightarrow> nat" where
  "format_errors p = count_list (trace p) Err_format_error"

text \<open>
  The case labels as the driver documents them: the bitrates that the error message of
  \<^verbatim>\<open>mcba_net_set_bittiming\<close> lists, in the order of the cases.
\<close>

definition documented_bitrates :: mcba_bitrates where
  "documented_bitrates =
     \<lparr>MCBA_BITRATE_20_KBPS_40MHZ = 20000,
      MCBA_BITRATE_33_3KBPS_40MHZ = 33333,
      MCBA_BITRATE_50KBPS_40MHZ = 50000,
      MCBA_BITRATE_80KBPS_40MHZ = 80000,
      MCBA_BITRATE_83_3KBPS_40MHZ = 83333,
      MCBA_BITRATE_100KBPS_40MHZ = 100000,
      MCBA_BITRATE_125KBPS_40MHZ = 125000,
      MCBA_BITRATE_150KBPS_40MHZ = 150000,
      MCBA_BITRATE_175KBPS_40MHZ = 175000,
      MCBA_BITRATE_200KBPS_40MHZ = 200000,
      MCBA_BITRATE_225KBPS_40MHZ = 225000,
      MCBA_BITRATE_250KBPS_40MHZ = 250000,
      MCBA_BITRATE_275KBPS_40MHZ = 275000,
      MCBA_BITRATE_300KBPS_40MHZ = 300000,
      MCBA_BITRATE_500KBPS_40MHZ = 500000,
      MCBA_BITRATE_625KBPS_40MHZ = 625000,
      MCBA_BITRATE_800KBPS_40MHZ = 800000,
      MCBA_BITRATE_1000KBPS_40MHZ = 1000000\<rparr>"

text \<open>
  The state in which the CAN layer has stored the requested bitrate before it calls
  \<^verbatim>\<open>do_set_bittiming\<close>.
\<close>

definition requested_bitrate :: "u32 \<Rightarrow> mcba_priv \<Rightarrow> mcba_priv" where
  "requested_bitrate b p = p\<lparr>bittiming := (bittiming p)\<lparr>bitrate := b\<rparr>\<rparr>"

text \<open>
  \<^verbatim>\<open>termination_store\<close>, the sysfs attribute, for the value \<open>tmp_termination\<close> that
  \<^verbatim>\<open>sscanf\<close> read.
\<close>

definition termination_store :: "mcba_hdr \<Rightarrow> u8 \<Rightarrow> usb_env \<Rightarrow> mcba_priv \<Rightarrow> mcba_priv" where
  "termination_store h tmp_termination env p =
     (if tmp_termination = 0 \<or> tmp_termination = 1
      then mcba_usb_xmit_termination h tmp_termination env
             (p\<lparr>termination_state := tmp_termination\<rparr>)
      else p)"

text \<open>
  The states the driver can reach from \<open>p0\<close>: transmit calls, completions of transmit URBs
  in flight, receive callbacks, bit-timing requests and writes of the termination
  attribute, in any order and with any answers of the USB core.
\<close>

inductive driver_reach ::
  "mcba_hdr \<Rightarrow> mcba_id_macros \<Rightarrow> mcba_layout \<Rightarrow> mcba_bitrates \<Rightarrow> mcba_priv \<Rightarrow> mcba_priv \<Rightarrow> bool"
  for h idm lay br p0 where
  dr_start: "driver_reach h idm lay br p0 p0"
| dr_xmit: "driver_reach h idm lay br p0 p \<Longrightarrow>
     driver_reach h idm lay br p0 (snd (mcba_usb_xmit h m skb env p))"
| dr_complete: "driver_reach h idm lay br p0 p \<Longrightarrow>
     driver_reach h idm lay br p0 (tx_complete h k st p)"
| dr_rx: "driver_reach h idm lay br p0 p \<Longrightarrow>
     mcba_usb_read_bulk_callback h idm lay alloc_ok retval u p = Some q \<Longrightarrow>
     driver_reach h idm lay br p0 q"
| dr_bittiming: "driver_reach h idm lay br p0 p \<Longrightarrow>
     mcba_net_set_bittiming h br env p = Some (r, q) \<Longrightarrow>
     driver_reach h idm lay br p0 q"
| dr_termination: "driver_reach h idm lay br p0 p \<Longrightarrow>
     driver_reach h idm lay br p0 (termination_store h t env p)"

text \<open>
  The anchor is sound: the array is shorter than the free marker, no two URBs in flight
  share a context, and each of them holds a context of the array that is not free.
\<close>

definition urbs_ok :: "mcba_hdr \<Rightarrow> mcba_priv \<Rightarrow> bool" where
  "urbs_ok h p =
     (length (tx_context p) \<le> MCBA_CTX_FREE h \<and>
      distinct (map fst (tx_submitted p)) \<and>
      (\<forall>j \<in> set (map fst (tx_submitted p)).
          j < length (tx_context p) \<and> ndx (tx_context p ! j) \<noteq> MCBA_CTX_FREE h))"

text \<open>
  Context \<open>i\<close> is lost: it is marked occupied and no URB in flight holds it, so no
  completion will release it.
\<close>

definition leaked :: "mcba_hdr \<Rightarrow> nat \<Rightarrow> mcba_priv \<Rightarrow> bool" where
  "leaked h i p =
     (i < length (tx_context p) \<and> ndx (tx_context p ! i) \<noteq> MCBA_CTX_FREE h \<and>
      i \<notin> set (map fst (tx_submitted p)))"

text \<open>Context \<open>k\<close> is the first free one of the array, the one an acquire returns.\<close>

definition first_free :: "mcba_hdr \<Rightarrow> mcba_priv \<Rightarrow> nat \<Rightarrow> bool" where
  "first_free h p k =
     (k < length (tx_context p) \<and> ndx (tx_context p ! k) = MCBA_CTX_FREE h \<and>
      (\<forall>j<k. ndx (tx_context p ! j) \<noteq> MCBA_CTX_FREE h))"

text \<open>No context of the array is free.\<close>

definition none_free :: "mcba_hdr \<Rightarrow> mcba_priv \<Rightarrow> bool" where
  "none_free h p = (\<forall>j<length (tx_context p). ndx (tx_context p ! j) \<noteq> MCBA_CTX_FREE h)"

text \<open>
  A started driver whose three contexts are all lost: three commands in a row met a failing
  URB allocation.
\<close>

definition exhausted_example :: mcba_priv where
  "exhausted_example =
     snd (mcba_usb_xmit hdr_example (Msg_fw_ver 0xA9 1) False Urb_alloc_fails
       (snd (mcba_usb_xmit hdr_example (Msg_fw_ver 0xA9 1) False Urb_alloc_fails
          (snd (mcba_usb_xmit hdr_example (Msg_fw_ver 0xA9 1) False Urb_alloc_fails
             (mcba_init_ctx hdr_example (probe_priv hdr_example 3)))))))"

section \<open>Verified properties\<close>

subsection \<open>Bit-timing calculation\<close>

text \<open>
  Claim C9. With the 40 MHz clock, whenever the calculation does not divide by zero it
  returns a bit timing whose derived values are, in the driver's 32-bit unsigned
  arithmetic with truncating division: tq = brp * 1000 / (clock / 1000000), bitrate =
  1000000000 / ((sjw + prop + seg1 + seg2) * tq) and sample\_point =
  (sjw + prop + seg1) * 1000 / (sjw + prop + seg1 + seg2); the five inputs are stored
  as they were passed.
\<close>

theorem calc_bittiming_formulas:
  assumes "(sjw' + prop + seg1 + seg2) * ((brp' * 1000) div 40) \<noteq> 0"
  shows "\<exists>bt'. mcba_net_calc_bittiming sjw' prop seg1 seg2 brp' bt = Some bt' \<and>
           MCBA_CAN_CLOCK = 40000000 \<and>
           sjw bt' = sjw' \<and> prop_seg bt' = prop \<and> phase_seg1 bt' = seg1 \<and>
           phase_seg2 bt' = seg2 \<and> brp bt' = brp' \<and>
           tq bt' = (brp' * 1000) div (MCBA_CAN_CLOCK div 1000000) \<and>
           bitrate bt' = 1000000000 div ((sjw' + prop + seg1 + seg2) * tq bt') \<and>
           sample_point bt' = ((sjw' + prop + seg1) * 1000) div (sjw' + prop + seg1 + seg2)"
proof -
  have clk: "MCBA_CAN_CLOCK div 1000000 = (40 :: u32)"
    by (simp add: MCBA_CAN_CLOCK_def)
  from assms have n: "sjw' + prop + seg1 + seg2 \<noteq> 0"
    by auto
  show ?thesis
    using assms n by (simp add: mcba_net_calc_bittiming_def clk Let_def MCBA_CAN_CLOCK_def)
qed

text \<open>The first case of the switch, 20 kbit/s: 2500 ns, 20000 bit/s, 700 per mille.\<close>

theorem calc_bittiming_formulas_witness:
  "\<forall>bt. \<exists>bt'. mcba_net_calc_bittiming 1 5 8 6 100 bt = Some bt' \<and>
     tq bt' = 2500 \<and> bitrate bt' = 20000 \<and> sample_point bt' = 700"
proof
  fix bt
  have h: "((1::u32) + 5 + 8 + 6) * ((100 * 1000) div 40) \<noteq> 0" by simp
  show "\<exists>bt'. mcba_net_calc_bittiming 1 5 8 6 100 bt = Some bt' \<and>
     tq bt' = 2500 \<and> bitrate bt' = 20000 \<and> sample_point bt' = 700"
    using calc_bittiming_formulas [OF h, of bt] by (auto simp: MCBA_CAN_CLOCK_def)
qed

subsection \<open>Transmit context pool\<close>

lemma get_from_None:
  "(\<And>j. i \<le> j \<Longrightarrow> j < length cs \<Longrightarrow> ndx (cs ! j) \<noteq> free) \<Longrightarrow>
   get_free_ctx_from free i cs = (None, cs)"
proof (induction free i cs rule: get_free_ctx_from.induct)
  case (1 free i cs)
  show ?case
  proof (cases "i < length cs")
    case True
    with "1.prems" have nf: "ndx (cs ! i) \<noteq> free" by simp
    have "get_free_ctx_from free (Suc i) cs = (None, cs)"
      using True nf "1.prems" by (intro "1.IH") auto
    with True nf show ?thesis by (simp add: get_free_ctx_from.simps [of free i cs])
  next
    case False
    then show ?thesis by (simp add: get_free_ctx_from.simps [of free i cs])
  qed
qed

lemma get_from_Some:
  "i \<le> k \<Longrightarrow> k < length cs \<Longrightarrow> ndx (cs ! k) = free \<Longrightarrow>
   (\<And>j. i \<le> j \<Longrightarrow> j < k \<Longrightarrow> ndx (cs ! j) \<noteq> free) \<Longrightarrow>
   get_free_ctx_from free i cs = (Some k, cs[k := (cs ! k)\<lparr>ndx := k, ctx_priv := True\<rparr>])"
proof (induction free i cs rule: get_free_ctx_from.induct)
  case (1 free i cs)
  show ?case
  proof (cases "i = k")
    case True
    with "1.prems" show ?thesis by (simp add: get_free_ctx_from.simps [of free k cs])
  next
    case False
    with "1.prems" have lt: "i < k" and il: "i < length cs" by auto
    with "1.prems" have nf: "ndx (cs ! i) \<noteq> free" by simp
    have "get_free_ctx_from free (Suc i) cs =
            (Some k, cs[k := (cs ! k)\<lparr>ndx := k, ctx_priv := True\<rparr>])"
      using il nf lt "1.prems" by (intro "1.IH") auto
    with il nf show ?thesis by (simp add: get_free_ctx_from.simps [of free i cs])
  qed
qed

lemma get_free_ctx_None:
  "(\<And>j. j < length (tx_context p) \<Longrightarrow> ndx (tx_context p ! j) \<noteq> MCBA_CTX_FREE h) \<Longrightarrow>
   mcba_usb_get_free_ctx h p = (None, p)"
  by (simp add: mcba_usb_get_free_ctx_def get_from_None)

lemma get_free_ctx_Some:
  "k < length (tx_context p) \<Longrightarrow> ndx (tx_context p ! k) = MCBA_CTX_FREE h \<Longrightarrow>
   (\<And>j. j < k \<Longrightarrow> ndx (tx_context p ! j) \<noteq> MCBA_CTX_FREE h) \<Longrightarrow>
   mcba_usb_get_free_ctx h p =
     (Some k, p\<lparr>tx_context := (tx_context p)[k := (tx_context p ! k)\<lparr>ndx := k, ctx_priv := True\<rparr>]\<rparr>)"
  by (simp add: mcba_usb_get_free_ctx_def get_from_Some)

text \<open>Either no context is free, or there is a first free one, which is returned.\<close>

lemma get_free_ctx_cases:
  obtains (none) "\<forall>j < length (tx_context p). ndx (tx_context p ! j) \<noteq> MCBA_CTX_FREE h"
      "mcba_usb_get_free_ctx h p = (None, p)"
  | (some) k where "k < length (tx_context p)" "ndx (tx_context p ! k) = MCBA_CTX_FREE h"
      "\<forall>j<k. ndx (tx_context p ! j) \<noteq> MCBA_CTX_FREE h"
      "mcba_usb_get_free_ctx h p =
     (Some k, p\<lparr>tx_context := (tx_context p)[k := (tx_context p ! k)\<lparr>ndx := k, ctx_priv := True\<rparr>]\<rparr>)"
proof (cases "\<exists>j < length (tx_context p). ndx (tx_context p ! j) = MCBA_CTX_FREE h")
  case False
  then show ?thesis by (intro none) (auto simp: get_free_ctx_None)
next
  case True
  define k where "k = (LEAST j. j < length (tx_context p) \<and> ndx (tx_context p ! j) = MCBA_CTX_FREE h)"
  from True have a: "k < length (tx_context p) \<and> ndx (tx_context p ! k) = MCBA_CTX_FREE h"
    unfolding k_def by (rule LeastI_ex)
  have b: "\<forall>j<k. ndx (tx_context p ! j) \<noteq> MCBA_CTX_FREE h"
  proof (intro allI impI)
    fix j assume "j < k"
    then have "\<not> (j < length (tx_context p) \<and> ndx (tx_context p ! j) = MCBA_CTX_FREE h)"
      unfolding k_def by (rule not_less_Least)
    with \<open>j < k\<close> a show "ndx (tx_context p ! j) \<noteq> MCBA_CTX_FREE h" by auto
  qed
  show ?thesis using a b by (intro some [of k]) (auto simp: get_free_ctx_Some)
qed


lemma get_free_ctx_length [simp]:
  "length (tx_context (snd (mcba_usb_get_free_ctx h p))) = length (tx_context p)"
  by (cases h p rule: get_free_ctx_cases) auto

lemma free_ctx_length [simp]:
  "length (tx_context (mcba_usb_free_ctx h i p)) = length (tx_context p)"
  by (simp add: mcba_usb_free_ctx_def)

lemma init_ctx_length [simp]:
  "length (tx_context (mcba_init_ctx h p)) = length (tx_context p)"
  by (simp add: mcba_init_ctx_def)

lemma init_ctx_free:
  "i < length (tx_context p) \<Longrightarrow> ndx (tx_context (mcba_init_ctx h p) ! i) = MCBA_CTX_FREE h"
  by (simp add: mcba_init_ctx_def)

lemma pool_ok_init: "pool_ok (MCBA_CTX_FREE h) (tx_context (mcba_init_ctx h p))"
  by (simp add: pool_ok_def mcba_init_ctx_def)

lemma pool_ok_acquire:
  "pool_ok (MCBA_CTX_FREE h) (tx_context p) \<Longrightarrow>
   pool_ok (MCBA_CTX_FREE h) (tx_context (snd (mcba_usb_get_free_ctx h p)))"
  by (cases h p rule: get_free_ctx_cases) (auto simp: pool_ok_def nth_list_update)

lemma pool_ok_release:
  "pool_ok (MCBA_CTX_FREE h) (tx_context p) \<Longrightarrow>
   pool_ok (MCBA_CTX_FREE h) (tx_context (mcba_usb_free_ctx h i p))"
  unfolding pool_ok_def mcba_usb_free_ctx_def
proof (intro allI impI)
  fix k
  assume ok: "\<forall>i<length (tx_context p).
                ndx (tx_context p ! i) = MCBA_CTX_FREE h \<or> ndx (tx_context p ! i) = i"
    and "k < length (tx_context
            (p\<lparr>tx_context := (tx_context p)
               [i := (tx_context p ! i)\<lparr>ndx := MCBA_CTX_FREE h, ctx_priv := False,
                                        ctx_dlc := 0, ctx_can := False\<rparr>]\<rparr>))"
  then have k: "k < length (tx_context p)" by simp
  with ok have "ndx (tx_context p ! k) = MCBA_CTX_FREE h \<or> ndx (tx_context p ! k) = k"
    by blast
  with k show "ndx (tx_context
            (p\<lparr>tx_context := (tx_context p)
               [i := (tx_context p ! i)\<lparr>ndx := MCBA_CTX_FREE h, ctx_priv := False,
                                        ctx_dlc := 0, ctx_can := False\<rparr>]\<rparr>) ! k) =
          MCBA_CTX_FREE h \<or>
        ndx (tx_context
            (p\<lparr>tx_context := (tx_context p)
               [i := (tx_context p ! i)\<lparr>ndx := MCBA_CTX_FREE h, ctx_priv := False,
                                        ctx_dlc := 0, ctx_can := False\<rparr>]\<rparr>) ! k) = k"
    by (cases "k = i") simp_all
qed

lemma pool_ok_distinct_aux:
  "(\<forall>i<length ns. ns ! i = free \<or> ns ! i = i) \<Longrightarrow>
   distinct (filter (\<lambda>n. n \<noteq> free) ns) \<and> (\<forall>x \<in> set (filter (\<lambda>n. n \<noteq> free) ns). x < length ns)"
proof (induction ns rule: rev_induct)
  case Nil
  then show ?case by simp
next
  case (snoc x xs)
  have pre: "\<forall>i<length xs. xs ! i = free \<or> xs ! i = i"
  proof (intro allI impI)
    fix i assume "i < length xs"
    with snoc.prems [rule_format, of i] show "xs ! i = free \<or> xs ! i = i"
      by (simp add: nth_append)
  qed
  from snoc.IH [OF pre] have d: "distinct (filter (\<lambda>n. n \<noteq> free) xs)"
    and b: "\<forall>y \<in> set (filter (\<lambda>n. n \<noteq> free) xs). y < length xs" by auto
  from snoc.prems [rule_format, of "length xs"] have x: "x = free \<or> x = length xs"
    by simp
  show ?case using d b x by (auto simp: less_Suc_eq)
qed

lemma pool_ok_distinct:
  "pool_ok (MCBA_CTX_FREE h) (tx_context p) \<Longrightarrow> distinct (live_slots h p)"
  using pool_ok_distinct_aux [of "map ndx (tx_context p)" "MCBA_CTX_FREE h"]
  by (simp add: pool_ok_def live_slots_def)

lemma pool_reach_ok:
  "pool_reach h p0 p \<Longrightarrow> pool_ok (MCBA_CTX_FREE h) (tx_context p)"
  by (induction rule: pool_reach.induct)
     (simp_all add: pool_ok_init pool_ok_acquire pool_ok_release)

lemma acquire_n_prefix:
  "k + m \<le> length (tx_context p) \<Longrightarrow> length (tx_context p) \<le> MCBA_CTX_FREE h \<Longrightarrow>
   (\<forall>i<k. ndx (tx_context p ! i) \<noteq> MCBA_CTX_FREE h) \<Longrightarrow>
   (\<forall>i. k \<le> i \<and> i < length (tx_context p) \<longrightarrow> ndx (tx_context p ! i) = MCBA_CTX_FREE h) \<Longrightarrow>
   fst (acquire_n h m p) = map Some [k..<k + m] \<and>
   length (tx_context (snd (acquire_n h m p))) = length (tx_context p) \<and>
   (\<forall>i<k + m. ndx (tx_context (snd (acquire_n h m p)) ! i) \<noteq> MCBA_CTX_FREE h) \<and>
   (\<forall>i. k + m \<le> i \<and> i < length (tx_context p) \<longrightarrow>
        ndx (tx_context (snd (acquire_n h m p)) ! i) = MCBA_CTX_FREE h)"
proof (induction m arbitrary: p k)
  case 0
  then show ?case by simp
next
  case (Suc m)
  let ?cs = "tx_context p"
  let ?q = "p\<lparr>tx_context := ?cs[k := (?cs ! k)\<lparr>ndx := k, ctx_priv := True\<rparr>]\<rparr>"
  from Suc.prems have kl: "k < length ?cs" and kf: "k \<noteq> MCBA_CTX_FREE h" by auto
  have g: "mcba_usb_get_free_ctx h p = (Some k, ?q)"
    using Suc.prems kl by (intro get_free_ctx_Some) auto
  have 1: "Suc k + m \<le> length (tx_context ?q)" using Suc.prems by simp
  have 2: "length (tx_context ?q) \<le> MCBA_CTX_FREE h" using Suc.prems by simp
  have 3: "\<forall>i<Suc k. ndx (tx_context ?q ! i) \<noteq> MCBA_CTX_FREE h"
    using Suc.prems kl kf by (auto simp: nth_list_update less_Suc_eq)
  have 4: "\<forall>i. Suc k \<le> i \<and> i < length (tx_context ?q) \<longrightarrow>
             ndx (tx_context ?q ! i) = MCBA_CTX_FREE h"
    using Suc.prems by (auto simp: nth_list_update)
  have u: "[k..<k + Suc m] = k # [Suc k..<Suc k + m]"
    by (simp add: upt_conv_Cons del: upt_Suc)
  have a: "acquire_n h (Suc m) p =
             (Some k # fst (acquire_n h m ?q), snd (acquire_n h m ?q))"
    by (simp add: g split: prod.splits)
  from Suc.IH [OF 1 2 3 4] show ?case
    unfolding a u by simp
qed

lemma acquire_all:
  assumes "length (tx_context p) \<le> MCBA_CTX_FREE h"
  shows "fst (acquire_n h (length (tx_context p)) (mcba_init_ctx h p)) =
           map Some [0..<length (tx_context p)]"
    and "length (tx_context (snd (acquire_n h (length (tx_context p)) (mcba_init_ctx h p)))) =
           length (tx_context p)"
    and "\<forall>i<length (tx_context p).
           ndx (tx_context (snd (acquire_n h (length (tx_context p)) (mcba_init_ctx h p))) ! i)
             \<noteq> MCBA_CTX_FREE h"
  using acquire_n_prefix [of 0 "length (tx_context p)" "mcba_init_ctx h p" h] assms
  by (simp_all add: init_ctx_free)

lemma release_then_acquire:
  assumes full: "\<forall>i<length (tx_context q). ndx (tx_context q ! i) \<noteq> MCBA_CTX_FREE h"
    and le: "length (tx_context q) \<le> MCBA_CTX_FREE h"
    and j: "j < length (tx_context q)"
  shows "fst (mcba_usb_get_free_ctx h (mcba_usb_free_ctx h j q)) = Some j"
    and "fst (mcba_usb_get_free_ctx h
           (snd (mcba_usb_get_free_ctx h (mcba_usb_free_ctx h j q)))) = None"
proof -
  let ?r = "mcba_usb_free_ctx h j q"
  let ?cs = "tx_context ?r"
  have a: "j < length ?cs" using j by simp
  have b: "ndx (?cs ! j) = MCBA_CTX_FREE h" using j by (simp add: mcba_usb_free_ctx_def)
  have c: "\<And>i. i < length ?cs \<Longrightarrow> i \<noteq> j \<Longrightarrow> ndx (?cs ! i) \<noteq> MCBA_CTX_FREE h"
    using full by (simp add: mcba_usb_free_ctx_def)
  have g: "mcba_usb_get_free_ctx h ?r =
     (Some j, ?r\<lparr>tx_context := ?cs[j := (?cs ! j)\<lparr>ndx := j, ctx_priv := True\<rparr>]\<rparr>)"
    using a b c by (intro get_free_ctx_Some) auto
  show "fst (mcba_usb_get_free_ctx h ?r) = Some j" by (simp add: g)
  have jf: "j \<noteq> MCBA_CTX_FREE h" using j le by simp
  have "mcba_usb_get_free_ctx h (snd (mcba_usb_get_free_ctx h ?r)) =
          (None, snd (mcba_usb_get_free_ctx h ?r))"
  proof (rule get_free_ctx_None)
    fix i assume "i < length (tx_context (snd (mcba_usb_get_free_ctx h ?r)))"
    then have "i < length ?cs" by simp
    then show "ndx (tx_context (snd (mcba_usb_get_free_ctx h ?r)) ! i) \<noteq> MCBA_CTX_FREE h"
      using c [of i] jf by (cases "i = j") (simp_all add: g)
  qed
  then show "fst (mcba_usb_get_free_ctx h
           (snd (mcba_usb_get_free_ctx h ?r))) = None" by simp
qed

text \<open>
  Claim C2. Let the free marker \<^verbatim>\<open>MCBA_CTX_FREE\<close> be no index of the array of
  \<^verbatim>\<open>MCBA_MAX_TX_URBS\<close> contexts. From the pool that \<^verbatim>\<open>mcba_init_ctx\<close> leaves, as many
  acquires as there are contexts succeed, with the indices 0, 1, ... in turn, which are
  pairwise distinct; the next acquire returns the null pointer; after releasing any one
  context of the exhausted pool one acquire succeeds (with that context) and the one
  after it fails; and in every pool state reachable by initialisation, acquires and
  releases the slot indices of the live contexts are pairwise distinct.
\<close>

theorem ctx_pool_distinct_slots:
  assumes "MCBA_MAX_TX_URBS p \<le> MCBA_CTX_FREE h"
  shows "fst (acquire_n h (MCBA_MAX_TX_URBS p) (mcba_init_ctx h p)) =
           map Some [0..<MCBA_MAX_TX_URBS p] \<and>
         distinct (fst (acquire_n h (MCBA_MAX_TX_URBS p) (mcba_init_ctx h p))) \<and>
         fst (mcba_usb_get_free_ctx h
                (snd (acquire_n h (MCBA_MAX_TX_URBS p) (mcba_init_ctx h p)))) = None \<and>
         (\<forall>j<MCBA_MAX_TX_URBS p.
            fst (mcba_usb_get_free_ctx h
                   (mcba_usb_free_ctx h j
                      (snd (acquire_n h (MCBA_MAX_TX_URBS p) (mcba_init_ctx h p))))) = Some j \<and>
            fst (mcba_usb_get_free_ctx h
                   (snd (mcba_usb_get_free_ctx h
                      (mcba_usb_free_ctx h j
                         (snd (acquire_n h (MCBA_MAX_TX_URBS p) (mcba_init_ctx h p))))))) = None) \<and>
         (\<forall>q. pool_reach h p q \<longrightarrow> distinct (live_slots h q))"
proof -
  let ?full = "snd (acquire_n h (MCBA_MAX_TX_URBS p) (mcba_init_ctx h p))"
  note all = acquire_all [OF assms]
  have len: "length (tx_context ?full) = MCBA_MAX_TX_URBS p" by (rule all(2))
  have occ: "\<forall>i<length (tx_context ?full). ndx (tx_context ?full ! i) \<noteq> MCBA_CTX_FREE h"
    using all(3) by (simp only: len)
  have 1: "fst (acquire_n h (MCBA_MAX_TX_URBS p) (mcba_init_ctx h p)) =
           map Some [0..<MCBA_MAX_TX_URBS p]" by (rule all(1))
  have 2: "distinct (fst (acquire_n h (MCBA_MAX_TX_URBS p) (mcba_init_ctx h p)))"
    unfolding 1 by (simp add: distinct_map)
  have 3: "fst (mcba_usb_get_free_ctx h ?full) = None"
    using occ by (simp add: get_free_ctx_None)
  have le: "length (tx_context ?full) \<le> MCBA_CTX_FREE h" using assms by (simp only: len)
  have 4: "\<forall>j<MCBA_MAX_TX_URBS p.
            fst (mcba_usb_get_free_ctx h (mcba_usb_free_ctx h j ?full)) = Some j \<and>
            fst (mcba_usb_get_free_ctx h
                   (snd (mcba_usb_get_free_ctx h (mcba_usb_free_ctx h j ?full)))) = None"
  proof (intro allI impI)
    fix j assume "j < MCBA_MAX_TX_URBS p"
    then have j: "j < length (tx_context ?full)" by (simp only: len)
    show "fst (mcba_usb_get_free_ctx h (mcba_usb_free_ctx h j ?full)) = Some j \<and>
            fst (mcba_usb_get_free_ctx h
                   (snd (mcba_usb_get_free_ctx h (mcba_usb_free_ctx h j ?full)))) = None"
      using release_then_acquire [OF occ le j] by blast
  qed
  have 5: "\<forall>q. pool_reach h p q \<longrightarrow> distinct (live_slots h q)"
    by (blast intro: pool_ok_distinct pool_reach_ok)
  from 1 2 3 4 5 show ?thesis by blast
qed

text \<open>A pool of three contexts under the free marker 3.\<close>

lemma probe_priv_len: "MCBA_MAX_TX_URBS (probe_priv h n) = n"
  by (simp add: probe_priv_def)

theorem ctx_pool_distinct_slots_witness:
  "MCBA_MAX_TX_URBS (probe_priv hdr_example 3) \<le> MCBA_CTX_FREE hdr_example \<and>
   fst (acquire_n hdr_example 3 (mcba_init_ctx hdr_example (probe_priv hdr_example 3))) =
     [Some 0, Some 1, Some 2] \<and>
   fst (mcba_usb_get_free_ctx hdr_example
          (snd (acquire_n hdr_example 3
                  (mcba_init_ctx hdr_example (probe_priv hdr_example 3))))) = None \<and>
   fst (mcba_usb_get_free_ctx hdr_example
          (mcba_usb_free_ctx hdr_example 1
             (snd (acquire_n hdr_example 3
                     (mcba_init_ctx hdr_example (probe_priv hdr_example 3)))))) = Some 1 \<and>
   distinct (live_slots hdr_example
     (snd (mcba_usb_get_free_ctx hdr_example
        (snd (mcba_usb_get_free_ctx hdr_example
           (mcba_init_ctx hdr_example (probe_priv hdr_example 3)))))))"
proof -
  have h: "MCBA_MAX_TX_URBS (probe_priv hdr_example 3) \<le> MCBA_CTX_FREE hdr_example"
    by (simp add: probe_priv_def hdr_example_def)
  have r: "pool_reach hdr_example (probe_priv hdr_example 3)
     (snd (mcba_usb_get_free_ctx hdr_example
        (snd (mcba_usb_get_free_ctx hdr_example
           (mcba_init_ctx hdr_example (probe_priv hdr_example 3))))))"
    by (intro reach_acquire reach_init)
  have u: "[0..<3] = [0, 1, 2]" by (simp add: upt_rec)
  from ctx_pool_distinct_slots [OF h] r h show ?thesis
    by (simp add: probe_priv_len u)
qed

lemma live_slots_example:
  "live_slots hdr_example
     (snd (mcba_usb_get_free_ctx hdr_example
        (snd (mcba_usb_get_free_ctx hdr_example
           (mcba_init_ctx hdr_example (probe_priv hdr_example 3)))))) = [0, 1]"
  by (simp add: live_slots_def mcba_usb_get_free_ctx_def mcba_init_ctx_def probe_priv_def hdr_example_def
      get_free_ctx_from.simps numeral_3_eq_3)

subsection \<open>Decoding a received CAN message\<close>

text \<open>
  The copy length of \<^verbatim>\<open>mcba_usb_process_can\<close> is the masked DLC byte and nothing else:
  it is not compared with 8.
\<close>

lemma process_can_copy_length:
  "\<exists>cf. trace (mcba_usb_process_can h idm True msg p) = trace p @ [Netif_rx cf] \<and>
        can_dlc cf = mc_dlc msg AND MCBA_DLC_MASK h \<and>
        cf_data cf = take (unat (can_dlc cf)) (mc_data msg @ mc_after_data msg) @ drop (unat (can_dlc cf)) (replicate 8 0)"
  by (simp add: mcba_usb_process_can_def emit_def Let_def memcpy_def)

text \<open>A mask that lets the DLC values 7 and 8 through lets 15 through as well.\<close>

lemma dlc_mask_admits_fifteen:
  fixes m :: u8
  assumes "8 AND m = 8" "7 AND m = 7"
  shows "15 AND m = 15"
proof -
  have "((8::u8) OR 7) AND m = (8 AND m) OR (7 AND m)"
    by (rule bit.conj_disj_distrib2)
  moreover have "(8::u8) OR 7 = 15" by simp
  ultimately show ?thesis using assms by simp
qed

text \<open>
  Claim C1 (the decoder copies at most 8 payload bytes) fails on the code. With the
  four-bit DLC mask 0x0F, a received record whose DLC byte is 0x0F is delivered with
  \<open>can_dlc = 15\<close>, and 15 bytes are copied: the eight of \<^verbatim>\<open>data[8]\<close> and the seven that lie
  behind it, written over the eight bytes of the frame's data and the seven behind them.
\<close>

theorem process_can_copies_fifteen_bytes:
  "\<exists>cf. trace (mcba_usb_process_can (h\<lparr>MCBA_DLC_MASK := 0x0F\<rparr>) idm True
            (msg\<lparr>mc_dlc := 0x0F, mc_data := [1, 2, 3, 4, 5, 6, 7, 8],
                  mc_after_data := [9, 10, 11, 12, 13, 14, 15, 16, 17]\<rparr>) p) =
            trace p @ [Netif_rx cf] \<and>
        can_dlc cf = 15 \<and>
        cf_data cf = [1, 2, 3, 4, 5, 6, 7, 8, 9, 10, 11, 12, 13, 14, 15] \<and>
        length (cf_data cf) = 15"
  by (simp add: mcba_usb_process_can_def emit_def Let_def memcpy_def)

subsection \<open>Keep-alive reports\<close>

text \<open>
  Claim C3 (the warning about untested firmware is emitted exactly when the reported
  version pair differs from the tested one) fails on the code. On the first report, with
  the tested major version and a minor version that differs from the tested one, the
  driver logs the version and no warning, for the USB controller and for the CAN
  controller alike.
\<close>

theorem keep_alive_warning_misses_minor_mismatch:
  "trace (mcba_usb_process_keep_alive_usb h
            \<lparr>kau_termination_state = t, kau_soft_ver_major = MCBA_VER_USB_MAJOR h,
             kau_soft_ver_minor = MCBA_VER_USB_MINOR h + 1\<rparr> (probe_priv h n)) =
     (if MCBA_IS_USB_DEBUG h
      then [Info_usb_ka t (MCBA_VER_USB_MAJOR h) (MCBA_VER_USB_MINOR h + 1)] else []) @
     [Info_pic_usb_version (MCBA_VER_USB_MAJOR h) (MCBA_VER_USB_MINOR h + 1)] \<and>
   (MCBA_VER_USB_MAJOR h, MCBA_VER_USB_MINOR h + 1) \<noteq> (MCBA_VER_USB_MAJOR h, MCBA_VER_USB_MINOR h) \<and>
   trace (mcba_usb_process_keep_alive_can h
            (msg\<lparr>kac_soft_ver_major := MCBA_VER_CAN_MAJOR h,
                  kac_soft_ver_minor := MCBA_VER_CAN_MINOR h + 1\<rparr>) (probe_priv h n)) =
     (if MCBA_IS_CAN_DEBUG h
      then [Info_can_ka (msg\<lparr>kac_soft_ver_major := MCBA_VER_CAN_MAJOR h,
                               kac_soft_ver_minor := MCBA_VER_CAN_MINOR h + 1\<rparr>)] else []) @
     [Info_pic_can_version (MCBA_VER_CAN_MAJOR h) (MCBA_VER_CAN_MINOR h + 1)] \<and>
   (MCBA_VER_CAN_MAJOR h, MCBA_VER_CAN_MINOR h + 1) \<noteq> (MCBA_VER_CAN_MAJOR h, MCBA_VER_CAN_MINOR h)"
  by (simp add: mcba_usb_process_keep_alive_usb_def mcba_usb_process_keep_alive_can_def
      probe_priv_def emit_def Let_def)

text \<open>
  What the condition of the code amounts to on the first report: the warning is emitted
  exactly when the major version differs and the minor version equals the tested one.
\<close>

lemma keep_alive_usb_warns_iff:
  "Warn_usb_tested_only a b \<in> set (trace (mcba_usb_process_keep_alive_usb h msg (probe_priv h n)))
   \<longleftrightarrow> a = MCBA_VER_USB_MAJOR h \<and> b = MCBA_VER_USB_MINOR h \<and>
       kau_soft_ver_major msg \<noteq> MCBA_VER_USB_MAJOR h \<and> kau_soft_ver_minor msg = MCBA_VER_USB_MINOR h"
  by (auto simp add: mcba_usb_process_keep_alive_usb_def
      probe_priv_def emit_def Let_def)

lemma keep_alive_can_warns_iff:
  "Warn_can_tested_only a b \<in> set (trace (mcba_usb_process_keep_alive_can h msg (probe_priv h n)))
   \<longleftrightarrow> a = MCBA_VER_CAN_MAJOR h \<and> b = MCBA_VER_CAN_MINOR h \<and>
       kac_soft_ver_major msg \<noteq> MCBA_VER_CAN_MAJOR h \<and> kac_soft_ver_minor msg = MCBA_VER_CAN_MINOR h"
  by (auto simp add: mcba_usb_process_keep_alive_can_def
      probe_priv_def emit_def Let_def)

lemma keep_alive_can_fields:
  "bec_txerr (mcba_usb_process_keep_alive_can h m p) = ucast (kac_tx_err_cnt m)"
  "bec_rxerr (mcba_usb_process_keep_alive_can h m p) = ucast (kac_rx_err_cnt m)"
  "pic_can_sw_ver_major (mcba_usb_process_keep_alive_can h m p) = kac_soft_ver_major m"
  "pic_can_sw_ver_minor (mcba_usb_process_keep_alive_can h m p) = kac_soft_ver_minor m"
  by (simp_all add: mcba_usb_process_keep_alive_can_def Let_def)

lemma keep_alive_can_trace:
  "trace (mcba_usb_process_keep_alive_can h m p) =
     trace p @ (if MCBA_IS_CAN_DEBUG h then [Info_can_ka m] else []) @
     (if MCBA_VER_UNDEFINED h = pic_can_sw_ver_major p \<and>
         MCBA_VER_UNDEFINED h = pic_can_sw_ver_minor p
      then Info_pic_can_version (kac_soft_ver_major m) (kac_soft_ver_minor m) #
           (if MCBA_VER_CAN_MAJOR h \<noteq> kac_soft_ver_major m \<and>
               MCBA_VER_CAN_MINOR h = kac_soft_ver_minor m
            then [Warn_can_tested_only (MCBA_VER_CAN_MAJOR h) (MCBA_VER_CAN_MINOR h)] else [])
      else [])"
  by (auto simp add: mcba_usb_process_keep_alive_can_def emit_def Let_def)

text \<open>
  Claim C7, amended. Every keep-alive report of the CAN controller stores its two error
  counters, zero-extended to 16 bits, and \<^verbatim>\<open>mcba_net_get_berr_counter\<close> returns them; a
  second report stores its own counters, and it logs nothing but the debug line unless
  the first report carried the version pair \<^verbatim>\<open>MCBA_VER_UNDEFINED\<close>.\<^verbatim>\<open>MCBA_VER_UNDEFINED\<close>.
\<close>

theorem keep_alive_can_counters:
  "bec_txerr (mcba_usb_process_keep_alive_can h m p) = ucast (kac_tx_err_cnt m) \<and>
   bec_rxerr (mcba_usb_process_keep_alive_can h m p) = ucast (kac_rx_err_cnt m) \<and>
   mcba_net_get_berr_counter (mcba_usb_process_keep_alive_can h m p) =
     (0, ucast (kac_tx_err_cnt m), ucast (kac_rx_err_cnt m)) \<and>
   mcba_net_get_berr_counter
     (mcba_usb_process_keep_alive_can h m2 (mcba_usb_process_keep_alive_can h m p)) =
     (0, ucast (kac_tx_err_cnt m2), ucast (kac_rx_err_cnt m2)) \<and>
   ((kac_soft_ver_major m, kac_soft_ver_minor m) \<noteq> (MCBA_VER_UNDEFINED h, MCBA_VER_UNDEFINED h) \<longrightarrow>
    trace (mcba_usb_process_keep_alive_can h m2 (mcba_usb_process_keep_alive_can h m p)) =
      trace (mcba_usb_process_keep_alive_can h m p) @
      (if MCBA_IS_CAN_DEBUG h then [Info_can_ka m2] else []))"
proof -
  have "(kac_soft_ver_major m, kac_soft_ver_minor m) \<noteq> (MCBA_VER_UNDEFINED h, MCBA_VER_UNDEFINED h) \<longrightarrow>
    trace (mcba_usb_process_keep_alive_can h m2 (mcba_usb_process_keep_alive_can h m p)) =
      trace (mcba_usb_process_keep_alive_can h m p) @
      (if MCBA_IS_CAN_DEBUG h then [Info_can_ka m2] else [])"
    by (subst keep_alive_can_trace [of h m2]) (auto simp: keep_alive_can_fields)
  then show ?thesis
    by (simp add: keep_alive_can_fields mcba_net_get_berr_counter_def)
qed

text \<open>The scenario of the spec: counters (3, 1), then (5, 1), one notification in all.\<close>

theorem keep_alive_can_counters_witness:
  "mcba_net_get_berr_counter
     (mcba_usb_process_keep_alive_can hdr_example (ka_can_example 3 1 2 3)
        (probe_priv hdr_example 3)) = (0, 3, 1) \<and>
   mcba_net_get_berr_counter
     (mcba_usb_process_keep_alive_can hdr_example (ka_can_example 5 1 2 3)
        (mcba_usb_process_keep_alive_can hdr_example (ka_can_example 3 1 2 3)
           (probe_priv hdr_example 3))) = (0, 5, 1) \<and>
   trace (mcba_usb_process_keep_alive_can hdr_example (ka_can_example 5 1 2 3)
        (mcba_usb_process_keep_alive_can hdr_example (ka_can_example 3 1 2 3)
           (probe_priv hdr_example 3))) = [Info_pic_can_version 2 3]"
proof -
  have v: "(kac_soft_ver_major (ka_can_example 3 1 2 3), kac_soft_ver_minor (ka_can_example 3 1 2 3))
      \<noteq> (MCBA_VER_UNDEFINED hdr_example, MCBA_VER_UNDEFINED hdr_example)"
    by (simp add: ka_can_example_def hdr_example_def)
  have t: "trace (mcba_usb_process_keep_alive_can hdr_example (ka_can_example 3 1 2 3)
           (probe_priv hdr_example 3)) = [Info_pic_can_version 2 3]"
    by (simp add: mcba_usb_process_keep_alive_can_def ka_can_example_def hdr_example_def
        probe_priv_def emit_def Let_def)
  have d: "\<not> MCBA_IS_CAN_DEBUG hdr_example" by (simp add: hdr_example_def)
  from keep_alive_can_counters [of hdr_example "ka_can_example 3 1 2 3"
      "probe_priv hdr_example 3" "ka_can_example 5 1 2 3"] v t d
  show ?thesis by (simp add: ka_can_example_def)
qed

text \<open>
  The claim as stated fails when the first report carries the version 255.255, which is
  the undefined marker of this header: the second report is announced as a first sighting
  again.
\<close>

theorem keep_alive_can_notifies_again:
  "trace (mcba_usb_process_keep_alive_can hdr_example (ka_can_example 5 1 0xFF 0xFF)
        (mcba_usb_process_keep_alive_can hdr_example (ka_can_example 3 1 0xFF 0xFF)
           (probe_priv hdr_example 3))) =
     [Info_pic_can_version 0xFF 0xFF, Info_pic_can_version 0xFF 0xFF]"
  by (simp add: mcba_usb_process_keep_alive_can_def ka_can_example_def hdr_example_def
        probe_priv_def emit_def Let_def)

text \<open>
  Claim C8, amended. Every keep-alive report of the USB controller overwrites the stored
  version fields and the termination state with the reported values; only the
  notification is bound to the first sighting: the version is logged exactly when both
  stored fields are still undefined.
\<close>

theorem keep_alive_usb_version_overwritten:
  "pic_usb_sw_ver_major (mcba_usb_process_keep_alive_usb h m p) = kau_soft_ver_major m \<and>
   pic_usb_sw_ver_minor (mcba_usb_process_keep_alive_usb h m p) = kau_soft_ver_minor m \<and>
   termination_state (mcba_usb_process_keep_alive_usb h m p) = kau_termination_state m \<and>
   (Info_pic_usb_version (kau_soft_ver_major m) (kau_soft_ver_minor m)
      \<in> set (drop (length (trace p)) (trace (mcba_usb_process_keep_alive_usb h m p)))) =
   (pic_usb_sw_ver_major p = MCBA_VER_UNDEFINED h \<and> pic_usb_sw_ver_minor p = MCBA_VER_UNDEFINED h)"
  by (auto simp add: mcba_usb_process_keep_alive_usb_def emit_def Let_def)

text \<open>
  The claim as stated fails: after the reports 2.0 and 2.1 the stored minor version is 1,
  not the 0 of the first sighting.
\<close>

theorem keep_alive_usb_version_changes_again:
  "pic_usb_sw_ver_minor
     (mcba_usb_process_keep_alive_usb hdr_example
        \<lparr>kau_termination_state = 0, kau_soft_ver_major = 2, kau_soft_ver_minor = 0\<rparr>
        (probe_priv hdr_example 3)) = 0 \<and>
   pic_usb_sw_ver_minor
     (mcba_usb_process_keep_alive_usb hdr_example
        \<lparr>kau_termination_state = 0, kau_soft_ver_major = 2, kau_soft_ver_minor = 1\<rparr>
        (mcba_usb_process_keep_alive_usb hdr_example
           \<lparr>kau_termination_state = 0, kau_soft_ver_major = 2, kau_soft_ver_minor = 0\<rparr>
           (probe_priv hdr_example 3))) = 1"
  by (simp add: mcba_usb_process_keep_alive_usb_def Let_def)

subsection \<open>Receive dispatcher\<close>

lemma process_records_step:
  "k < m \<Longrightarrow>
   process_records h idm lay alloc_ok u k m p =
   process_records h idm lay alloc_ok u (Suc k) m
     (mcba_usb_process_rx h idm lay (alloc_ok (k * MCBA_USB_MSG_SIZE h))
        (drop (k * MCBA_USB_MSG_SIZE h) (transfer_buffer u)) p)"
  by (simp add: process_records_def upt_conv_Cons del: upt_Suc)

lemma process_records_done [simp]:
  "process_records h idm lay alloc_ok u m m p = p"
  by (simp add: process_records_def)

lemma read_bulk_loop_from:
  assumes S: "0 < MCBA_USB_MSG_SIZE h"
  shows "k \<le> actual_length u div MCBA_USB_MSG_SIZE h \<Longrightarrow>
     read_bulk_loop h idm lay alloc_ok u (k * MCBA_USB_MSG_SIZE h) p =
       Some (let r = process_records h idm lay alloc_ok u k
                       (actual_length u div MCBA_USB_MSG_SIZE h) p
             in if actual_length u mod MCBA_USB_MSG_SIZE h = 0 then r
                else emit Err_format_error r)"
proof (induction "actual_length u div MCBA_USB_MSG_SIZE h - k" arbitrary: k p)
  case 0
  let ?S = "MCBA_USB_MSG_SIZE h" and ?n = "actual_length u"
  from 0 have k: "k = ?n div ?S" by simp
  have n: "?n = k * ?S + ?n mod ?S" unfolding k by simp
  show ?case
  proof (cases "?n mod ?S = 0")
    case True
    with n have "\<not> k * ?S < ?n" by simp
    then show ?thesis using True k
      by (subst read_bulk_loop.simps) simp
  next
    case False
    with n have a: "k * ?S < ?n" by linarith
    have "?n mod ?S < ?S" using S by simp
    with n have b: "k * ?S + ?S > ?n" by linarith
    show ?thesis using False a b k
      by (subst read_bulk_loop.simps) simp
  qed
next
  case (Suc d)
  let ?S = "MCBA_USB_MSG_SIZE h" and ?n = "actual_length u"
  from Suc have k: "k < ?n div ?S" by simp
  then have "Suc k * ?S \<le> (?n div ?S) * ?S" by (intro mult_le_mono1) simp
  also have "\<dots> \<le> ?n" by simp
  finally have le: "k * ?S + ?S \<le> ?n" by simp
  with S have lt: "k * ?S < ?n" by linarith
  have d: "d = ?n div ?S - Suc k" using Suc by simp
  have k': "Suc k \<le> ?n div ?S" using k by simp
  have "read_bulk_loop h idm lay alloc_ok u (k * ?S) p =
        read_bulk_loop h idm lay alloc_ok u (Suc k * ?S)
          (mcba_usb_process_rx h idm lay (alloc_ok (k * ?S)) (drop (k * ?S) (transfer_buffer u)) p)"
    using le lt by (subst read_bulk_loop.simps) (simp add: add.commute)
  also note Suc.hyps(1) [OF d k']
  finally show ?case using k by (simp add: process_records_step [symmetric])
qed

lemma emit_format_errors [simp]:
  "e \<noteq> Err_format_error \<Longrightarrow> format_errors (emit e p) = format_errors p"
  by (simp add: format_errors_def emit_def)

lemma format_errors_upd [simp]:
  "format_errors (p\<lparr>stats := s\<rparr>) = format_errors p"
  "format_errors (p\<lparr>pic_usb_sw_ver_major := a\<rparr>) = format_errors p"
  "format_errors (p\<lparr>pic_usb_sw_ver_minor := a\<rparr>) = format_errors p"
  "format_errors (p\<lparr>pic_can_sw_ver_major := a\<rparr>) = format_errors p"
  "format_errors (p\<lparr>pic_can_sw_ver_minor := a\<rparr>) = format_errors p"
  "format_errors (p\<lparr>termination_state := a\<rparr>) = format_errors p"
  "format_errors (p\<lparr>bec_txerr := b\<rparr>) = format_errors p"
  "format_errors (p\<lparr>bec_rxerr := b\<rparr>) = format_errors p"
  by (simp_all add: format_errors_def)

lemma keep_alive_can_format_errors [simp]:
  "format_errors (mcba_usb_process_keep_alive_can h m p) = format_errors p"
  by (simp add: mcba_usb_process_keep_alive_can_def Let_def)

lemma keep_alive_usb_format_errors [simp]:
  "format_errors (mcba_usb_process_keep_alive_usb h m p) = format_errors p"
  by (simp add: mcba_usb_process_keep_alive_usb_def Let_def)

lemma process_can_format_errors [simp]:
  "format_errors (mcba_usb_process_can h idm ok m p) = format_errors p"
  by (simp add: mcba_usb_process_can_def Let_def)

lemma process_rx_format_errors [simp]:
  "format_errors (mcba_usb_process_rx h idm lay ok m p) = format_errors p"
  by (simp add: mcba_usb_process_rx_def Let_def)

lemma process_records_format_errors [simp]:
  "format_errors (process_records h idm lay alloc_ok u k m p) = format_errors p"
proof -
  have "format_errors (foldl (\<lambda>q i. mcba_usb_process_rx h idm lay (alloc_ok (i * MCBA_USB_MSG_SIZE h))
                     (drop (i * MCBA_USB_MSG_SIZE h) (transfer_buffer u)) q) p xs) = format_errors p" for xs
    by (induction xs arbitrary: p) simp_all
  then show ?thesis by (simp add: process_records_def)
qed

text \<open>
  Claim C6. For a record size above 0, the loop of \<^verbatim>\<open>mcba_usb_read_bulk_callback\<close>
  returns, having processed the complete leading records, \<open>actual_length div size\<close> in
  number and in their order; when the length is no multiple of the record size it
  reports one format error for the partial record behind them, and none otherwise. The
  callback of a present device with a successful URB then resubmits the URB: the session
  goes on.
\<close>

theorem read_bulk_partial_record:
  assumes "0 < MCBA_USB_MSG_SIZE h"
  shows "read_bulk_loop h idm lay alloc_ok u 0 p =
           Some (if actual_length u mod MCBA_USB_MSG_SIZE h = 0
                 then process_records h idm lay alloc_ok u 0
                        (actual_length u div MCBA_USB_MSG_SIZE h) p
                 else emit Err_format_error
                        (process_records h idm lay alloc_ok u 0
                           (actual_length u div MCBA_USB_MSG_SIZE h) p)) \<and>
         (\<forall>q. read_bulk_loop h idm lay alloc_ok u 0 p = Some q \<longrightarrow>
              format_errors q =
                format_errors p + (if actual_length u mod MCBA_USB_MSG_SIZE h = 0 then 0 else 1)) \<and>
         (present p \<and> status u = 0 \<longrightarrow>
            mcba_usb_read_bulk_callback h idm lay alloc_ok retval u p =
              Some (resubmit_urb retval
                (if actual_length u mod MCBA_USB_MSG_SIZE h = 0
                 then process_records h idm lay alloc_ok u 0
                        (actual_length u div MCBA_USB_MSG_SIZE h) p
                 else emit Err_format_error
                        (process_records h idm lay alloc_ok u 0
                           (actual_length u div MCBA_USB_MSG_SIZE h) p))))"
proof -
  have l: "read_bulk_loop h idm lay alloc_ok u 0 p =
           Some (if actual_length u mod MCBA_USB_MSG_SIZE h = 0
                 then process_records h idm lay alloc_ok u 0
                        (actual_length u div MCBA_USB_MSG_SIZE h) p
                 else emit Err_format_error
                        (process_records h idm lay alloc_ok u 0
                           (actual_length u div MCBA_USB_MSG_SIZE h) p))"
    using read_bulk_loop_from [OF assms, of 0 u idm lay alloc_ok p] by (simp add: Let_def)
  have e: "format_errors (emit Err_format_error r) = format_errors r + 1" for r
    by (simp add: format_errors_def emit_def)
  show ?thesis
    unfolding l by (simp add: e mcba_usb_read_bulk_callback_def l)
qed

text \<open>
  A transfer of 40 bytes with records of 19 bytes: two records are processed (their
  command 0 is unknown, so each leaves a warning), then the two bytes left over are
  reported.
\<close>

theorem read_bulk_partial_record_witness:
  "\<forall>idm lay.
     0 < MCBA_USB_MSG_SIZE hdr_example \<and>
     read_bulk_loop hdr_example idm (lay\<lparr>msg_cmdId := \<lambda>m. m ! 0\<rparr>) (\<lambda>pos. True)
       \<lparr>transfer_buffer = replicate 64 0, actual_length = 40, status = 0\<rparr> 0
       (probe_priv hdr_example 3) =
     Some ((probe_priv hdr_example 3)
             \<lparr>trace := [Warn_unsupported_msg 0, Warn_unsupported_msg 0, Err_format_error]\<rparr>)"
proof (intro allI)
  fix idm lay
  have S: "0 < MCBA_USB_MSG_SIZE hdr_example" by (simp add: hdr_example_def)
  have u: "[0..<2] = [0, 1]" by (simp add: upt_rec)
  have d: "(40::nat) div 19 = 2" "(40::nat) mod 19 = 2" by simp_all
  have s19: "MCBA_USB_MSG_SIZE hdr_example = 19" by (simp add: hdr_example_def)
  have r: "process_records hdr_example idm (lay\<lparr>msg_cmdId := \<lambda>m. m ! 0\<rparr>) (\<lambda>pos. True)
       \<lparr>transfer_buffer = replicate 64 0, actual_length = 40, status = 0\<rparr> 0 2
       (probe_priv hdr_example 3) =
      (probe_priv hdr_example 3)\<lparr>trace := [Warn_unsupported_msg 0, Warn_unsupported_msg 0]\<rparr>"
    by (simp add: process_records_def u s19 mcba_usb_process_rx_def Let_def)
       (simp add: hdr_example_def emit_def probe_priv_def)
  from read_bulk_partial_record [OF S, of idm "lay\<lparr>msg_cmdId := \<lambda>m. m ! 0\<rparr>" "\<lambda>pos. True"
      "\<lparr>transfer_buffer = replicate 64 0, actual_length = 40, status = 0\<rparr>"
      "probe_priv hdr_example 3"]
  show "0 < MCBA_USB_MSG_SIZE hdr_example \<and>
     read_bulk_loop hdr_example idm (lay\<lparr>msg_cmdId := \<lambda>m. m ! 0\<rparr>) (\<lambda>pos. True)
       \<lparr>transfer_buffer = replicate 64 0, actual_length = 40, status = 0\<rparr> 0
       (probe_priv hdr_example 3) =
     Some ((probe_priv hdr_example 3)
             \<lparr>trace := [Warn_unsupported_msg 0, Warn_unsupported_msg 0, Err_format_error]\<rparr>)"
    by (simp add: S s19 d r emit_def)
qed

subsection \<open>Setting the bit timing\<close>

lemma calc_bittiming_Some:
  assumes "(sjw' + prop + seg1 + seg2) * ((brp' * 1000) div 40) \<noteq> 0"
  shows "mcba_net_calc_bittiming sjw' prop seg1 seg2 brp' bt =
           Some (bt\<lparr>sjw := sjw', prop_seg := prop, phase_seg1 := seg1, phase_seg2 := seg2,
                     brp := brp', tq := (brp' * 1000) div 40,
                     bitrate := 1000000000 div ((sjw' + prop + seg1 + seg2) * ((brp' * 1000) div 40)),
                     sample_point := ((sjw' + prop + seg1) * 1000) div (sjw' + prop + seg1 + seg2)\<rparr>)"
proof -
  have clk: "MCBA_CAN_CLOCK div 1000000 = (40 :: u32)"
    by (simp add: MCBA_CAN_CLOCK_def)
  from assms have n: "sjw' + prop + seg1 + seg2 \<noteq> 0"
    by auto
  show ?thesis
    using assms n by (simp add: mcba_net_calc_bittiming_def clk Let_def)
qed

lemma bitrate_cases_no_trap:
  "\<forall>c \<in> set (bitrate_cases br).
     (case c of (label, (s1, s2, s3, s4, s5), rate) \<Rightarrow>
        (s1 + s2 + s3 + s4) * ((s5 * 1000) div 40) \<noteq> 0)"
  by (simp add: bitrate_cases_def)

lemma bitrate_cases_calc:
  "(label, (s1, s2, s3, s4, s5), rate) \<in> set (bitrate_cases br) \<Longrightarrow>
   (s1 + s2 + s3 + s4) * ((s5 * 1000) div 40) \<noteq> 0"
  using bitrate_cases_no_trap [of br] by fastforce

lemma bitrate_cases_length: "length (bitrate_cases br) = 18"
  by (simp add: bitrate_cases_def)

lemma find_miss:
  "(\<And>x. x \<in> set xs \<Longrightarrow> \<not> P x) \<Longrightarrow> find P xs = None"
  by (induction xs) auto

lemma set_bittiming_unsupported:
  assumes "bitrate (bittiming p) \<notin> fst ` set (bitrate_cases br)"
  shows "mcba_net_set_bittiming h br env p =
           Some (- EINVAL, emit (Err_unsupported_bitrate (bitrate (bittiming p))) p)"
proof -
  have "find (\<lambda>c. fst c = bitrate (bittiming p)) (bitrate_cases br) = None"
    using assms by (intro find_miss) force
  then show ?thesis by (simp add: mcba_net_set_bittiming_def)
qed

text \<open>The labels of the documented choice.\<close>

lemma documented_bitrates_labels:
  "fst ` set (bitrate_cases documented_bitrates) =
     {20000, 33333, 50000, 80000, 83333, 100000, 125000, 150000, 175000, 200000, 225000,
      250000, 275000, 300000, 500000, 625000, 800000, 1000000}"
  by (simp add: bitrate_cases_def documented_bitrates_def)

subsection \<open>Transmit failures\<close>

lemma emit_fields [simp]:
  "tx_context (emit e p) = tx_context p"
  "tx_submitted (emit e p) = tx_submitted p"
  "stats (emit e p) = stats p"
  "present (emit e p) = present p"
  by (simp_all add: emit_def)

lemma detach_fields [simp]:
  "tx_context (netif_device_detach p) = tx_context p"
  "tx_submitted (netif_device_detach p) = tx_submitted p"
  "stats (netif_device_detach p) = stats p"
  by (simp_all add: netif_device_detach_def)

lemma xmit_nomem_fields [simp]:
  "tx_context (xmit_nomem i p) = tx_context p"
  "tx_submitted (xmit_nomem i p) = tx_submitted p"
  "tx_dropped (stats (xmit_nomem i p)) = tx_dropped (stats p) + 1"
  by (simp_all add: xmit_nomem_def Let_def)

lemma get_free_ctx_frame:
  "tx_submitted (snd (mcba_usb_get_free_ctx h p)) = tx_submitted p"
  "stats (snd (mcba_usb_get_free_ctx h p)) = stats p"
  by (simp_all add: mcba_usb_get_free_ctx_def split: prod.splits)

text \<open>What one call of \<^verbatim>\<open>mcba_usb_xmit\<close> does to the pool, the anchor and the drop counter.\<close>

lemma xmit_pool:
  obtains (busy) "fst (mcba_usb_get_free_ctx h p) = None"
      "fst (mcba_usb_xmit h m skb env p) = NETDEV_TX_BUSY"
      "tx_context (snd (mcba_usb_xmit h m skb env p)) = tx_context p"
      "tx_submitted (snd (mcba_usb_xmit h m skb env p)) = tx_submitted p"
  | (taken) k c where "fst (mcba_usb_get_free_ctx h p) = Some k"
      "k < length (tx_context p)" "ndx (tx_context p ! k) = MCBA_CTX_FREE h" "ndx c = k"
      "fst (mcba_usb_xmit h m skb env p) = NETDEV_TX_OK"
      "tx_context (snd (mcba_usb_xmit h m skb env p)) = (tx_context p)[k := c]"
      "tx_submitted (snd (mcba_usb_xmit h m skb env p)) =
         (if env = Submit_returns 0 then tx_submitted p @ [(k, m)] else tx_submitted p)"
      "tx_dropped (stats (snd (mcba_usb_xmit h m skb env p))) =
         (if env = Submit_returns 0 then tx_dropped (stats p) else tx_dropped (stats p) + 1)"
proof (cases h p rule: get_free_ctx_cases)
  case none
  then show ?thesis
    by (intro busy) (simp_all add: mcba_usb_xmit_def)
next
  case (some k)
  let ?cs = "tx_context p"
  let ?c0 = "(?cs ! k)\<lparr>ndx := k, ctx_priv := True\<rparr>"
  let ?c = "(if skb then ?c0\<lparr>ctx_dlc := msg_can_dlc m (ctx_dlc ?c0), ctx_can := True\<rparr>
             else ?c0\<lparr>ctx_can := False\<rparr>)"
  note g = some(4)
  have k: "k < length ?cs" by (rule some(1))
  show ?thesis
  proof (rule taken [of k ?c])
    show "fst (mcba_usb_get_free_ctx h p) = Some k" by (simp add: g)
    show "k < length ?cs" by (rule k)
    show "ndx (?cs ! k) = MCBA_CTX_FREE h" by (rule some(2))
    show "ndx ?c = k" by simp
    show "fst (mcba_usb_xmit h m skb env p) = NETDEV_TX_OK"
      by (simp add: mcba_usb_xmit_def g Let_def split: usb_env.splits)
    show "tx_context (snd (mcba_usb_xmit h m skb env p)) = ?cs[k := ?c]"
      using k by (simp add: mcba_usb_xmit_def g Let_def split: usb_env.splits)
    show "tx_submitted (snd (mcba_usb_xmit h m skb env p)) =
         (if env = Submit_returns 0 then tx_submitted p @ [(k, m)] else tx_submitted p)"
      by (simp add: mcba_usb_xmit_def g Let_def split: usb_env.splits)
    show "tx_dropped (stats (snd (mcba_usb_xmit h m skb env p))) =
         (if env = Submit_returns 0 then tx_dropped (stats p) else tx_dropped (stats p) + 1)"
      by (simp add: mcba_usb_xmit_def g Let_def split: usb_env.splits)
  qed
qed


lemma write_bulk_callback_pool:
  "tx_submitted (mcba_usb_write_bulk_callback h i st p) = tx_submitted p"
  "length (tx_context (mcba_usb_write_bulk_callback h i st p)) = length (tx_context p)"
  "j \<noteq> i \<Longrightarrow> tx_context (mcba_usb_write_bulk_callback h i st p) ! j = tx_context p ! j"
  by (simp_all add: mcba_usb_write_bulk_callback_def mcba_usb_free_ctx_def Let_def)

lemma remove_nth_fst:
  assumes "distinct (map fst xs)" "k < length xs"
  shows "distinct (map fst (take k xs @ drop (Suc k) xs))"
    and "fst (xs ! k) \<notin> set (map fst (take k xs @ drop (Suc k) xs))"
proof -
  have "map fst xs = map fst (take k xs) @ fst (xs ! k) # map fst (drop (Suc k) xs)"
    using assms(2) by (subst id_take_nth_drop [of k xs]) simp_all
  with assms(1) have d: "distinct (map fst (take k xs) @ fst (xs ! k) # map fst (drop (Suc k) xs))"
    by simp
  from d show "distinct (map fst (take k xs @ drop (Suc k) xs))" by auto
  from d show "fst (xs ! k) \<notin> set (map fst (take k xs @ drop (Suc k) xs))" by auto
qed

lemma remove_nth_subset:
  "set (take k xs @ drop (Suc k) xs) \<subseteq> set xs"
  by (auto dest: in_set_takeD in_set_dropD)

lemma tx_complete_pool:
  "length (tx_context (tx_complete h k st p)) = length (tx_context p)"
  "set (tx_submitted (tx_complete h k st p)) \<subseteq> set (tx_submitted p)"
  using remove_nth_subset [of k "tx_submitted p"]
  by (simp_all add: tx_complete_def write_bulk_callback_pool)

lemma leaked_frame:
  "tx_context q = tx_context p \<Longrightarrow> tx_submitted q = tx_submitted p \<Longrightarrow>
   leaked h i q = leaked h i p"
  by (simp add: leaked_def)

lemma urbs_ok_frame:
  "tx_context q = tx_context p \<Longrightarrow> tx_submitted q = tx_submitted p \<Longrightarrow>
   urbs_ok h q = urbs_ok h p"
  by (simp add: urbs_ok_def)

lemma leaked_xmit:
  assumes "leaked h i p"
  shows "leaked h i (snd (mcba_usb_xmit h m skb env p))"
proof (cases rule: xmit_pool [where h = h and p = p and m = m and skb = skb and env = env])
  case busy
  with assms show ?thesis by (simp add: leaked_def)
next
  case (taken k c)
  from assms taken(3) have ki: "k \<noteq> i" by (auto simp: leaked_def)
  with assms taken show ?thesis by (auto simp: leaked_def)
qed

lemma leaked_complete:
  assumes "leaked h i p"
  shows "leaked h i (tx_complete h k st p)"
proof (cases "k < length (tx_submitted p)")
  case False
  with assms show ?thesis by (simp add: tx_complete_def)
next
  case True
  let ?j = "fst (tx_submitted p ! k)"
  from True have "?j \<in> set (map fst (tx_submitted p))" by simp
  with assms have ji: "i \<noteq> ?j" by (auto simp: leaked_def)
  have c: "tx_context (tx_complete h k st p) ! i = tx_context p ! i"
    using True ji by (simp add: tx_complete_def write_bulk_callback_pool)
  from assms have "i \<notin> fst ` set (tx_submitted p)" by (simp add: leaked_def)
  with tx_complete_pool(2) [of h k st p]
  have n: "i \<notin> fst ` set (tx_submitted (tx_complete h k st p))" by blast
  from assms c n show ?thesis by (simp add: leaked_def tx_complete_pool(1))
qed

lemma urbs_ok_xmit:
  assumes "urbs_ok h p"
  shows "urbs_ok h (snd (mcba_usb_xmit h m skb env p))"
proof (cases rule: xmit_pool [where h = h and p = p and m = m and skb = skb and env = env])
  case busy
  with assms show ?thesis by (simp add: urbs_ok_def)
next
  case (taken k c)
  let ?q = "snd (mcba_usb_xmit h m skb env p)"
  from assms have le: "length (tx_context p) \<le> MCBA_CTX_FREE h"
    and d: "distinct (map fst (tx_submitted p))"
    and a: "\<And>j. j \<in> set (map fst (tx_submitted p)) \<Longrightarrow>
              j < length (tx_context p) \<and> ndx (tx_context p ! j) \<noteq> MCBA_CTX_FREE h"
    by (auto simp: urbs_ok_def)
  from taken(2) le have kf: "k \<noteq> MCBA_CTX_FREE h" by simp
  have kn: "k \<notin> set (map fst (tx_submitted p))"
    using a [of k] taken(3) by auto
  have old: "j < length (tx_context ?q) \<and> ndx (tx_context ?q ! j) \<noteq> MCBA_CTX_FREE h"
    if "j \<in> set (map fst (tx_submitted p))" for j
  proof -
    from that kn have "j \<noteq> k" by auto
    with a [OF that] show ?thesis by (simp add: taken(6))
  qed
  have new: "k < length (tx_context ?q) \<and> ndx (tx_context ?q ! k) \<noteq> MCBA_CTX_FREE h"
    using taken(2) taken(4) kf by (simp add: taken(6))
  show ?thesis
    unfolding urbs_ok_def
  proof (intro conjI ballI)
    show "length (tx_context ?q) \<le> MCBA_CTX_FREE h" using le by (simp add: taken(6))
    show "distinct (map fst (tx_submitted ?q))" using d kn by (simp add: taken(7))
    fix j assume "j \<in> set (map fst (tx_submitted ?q))"
    then have "j \<in> set (map fst (tx_submitted p)) \<or> j = k"
      by (auto simp: taken(7) split: if_splits)
    then show "j < length (tx_context ?q)" and "ndx (tx_context ?q ! j) \<noteq> MCBA_CTX_FREE h"
      using old new by auto
  qed
qed

lemma urbs_ok_complete:
  assumes "urbs_ok h p"
  shows "urbs_ok h (tx_complete h k st p)"
proof (cases "k < length (tx_submitted p)")
  case False
  with assms show ?thesis by (simp add: tx_complete_def)
next
  case True
  let ?j = "fst (tx_submitted p ! k)"
  let ?q = "tx_complete h k st p"
  let ?rest = "take k (tx_submitted p) @ drop (Suc k) (tx_submitted p)"
  from assms have le: "length (tx_context p) \<le> MCBA_CTX_FREE h"
    and d: "distinct (map fst (tx_submitted p))"
    and a: "\<And>j. j \<in> set (map fst (tx_submitted p)) \<Longrightarrow>
              j < length (tx_context p) \<and> ndx (tx_context p ! j) \<noteq> MCBA_CTX_FREE h"
    by (auto simp: urbs_ok_def)
  have s: "tx_submitted ?q = ?rest"
    using True by (simp add: tx_complete_def write_bulk_callback_pool)
  note r = remove_nth_fst [OF d True]
  show ?thesis
    unfolding urbs_ok_def
  proof (intro conjI ballI)
    show "length (tx_context ?q) \<le> MCBA_CTX_FREE h" using le by (simp add: tx_complete_pool)
    show "distinct (map fst (tx_submitted ?q))" using r(1) by (simp only: s)
    fix j assume j: "j \<in> set (map fst (tx_submitted ?q))"
    then have jr: "j \<in> set (map fst ?rest)" by (simp only: s)
    with r(2) have ne: "j \<noteq> ?j" by blast
    from jr remove_nth_subset [of k "tx_submitted p"]
    have "j \<in> set (map fst (tx_submitted p))" by auto
    note b = a [OF this]
    have c: "tx_context ?q ! j = tx_context p ! j"
      using True ne by (simp add: tx_complete_def write_bulk_callback_pool)
    from b show "j < length (tx_context ?q)" by (simp add: tx_complete_pool)
    from b c show "ndx (tx_context ?q ! j) \<noteq> MCBA_CTX_FREE h" by simp
  qed
qed

text \<open>The receive path leaves the pool and the anchor alone.\<close>

lemma keep_alive_can_pool [simp]:
  "tx_context (mcba_usb_process_keep_alive_can h m p) = tx_context p"
  "tx_submitted (mcba_usb_process_keep_alive_can h m p) = tx_submitted p"
  by (simp_all add: mcba_usb_process_keep_alive_can_def Let_def)

lemma keep_alive_usb_pool [simp]:
  "tx_context (mcba_usb_process_keep_alive_usb h m p) = tx_context p"
  "tx_submitted (mcba_usb_process_keep_alive_usb h m p) = tx_submitted p"
  by (simp_all add: mcba_usb_process_keep_alive_usb_def Let_def)

lemma process_can_pool [simp]:
  "tx_context (mcba_usb_process_can h idm ok m p) = tx_context p"
  "tx_submitted (mcba_usb_process_can h idm ok m p) = tx_submitted p"
  by (simp_all add: mcba_usb_process_can_def Let_def)

lemma process_rx_pool [simp]:
  "tx_context (mcba_usb_process_rx h idm lay ok m p) = tx_context p"
  "tx_submitted (mcba_usb_process_rx h idm lay ok m p) = tx_submitted p"
  by (simp_all add: mcba_usb_process_rx_def Let_def)

lemma resubmit_urb_pool [simp]:
  "tx_context (resubmit_urb retval p) = tx_context p"
  "tx_submitted (resubmit_urb retval p) = tx_submitted p"
  by (simp_all add: resubmit_urb_def Let_def)

lemma read_bulk_loop_pool:
  assumes "read_bulk_loop h idm lay alloc_ok u pos p = Some q"
  shows "tx_context q = tx_context p \<and> tx_submitted q = tx_submitted p"
proof (rule read_bulk_loop.raw_induct
    [where P = "\<lambda>h idm lay alloc_ok u pos p q.
                  tx_context q = tx_context p \<and> tx_submitted q = tx_submitted p",
     OF _ assms], goal_cases)
  case (1 f h idm lay alloc_ok u pos p q)
  show ?case
  proof (cases "pos < actual_length u")
    case False
    with 1(2) show ?thesis by simp
  next
    case True
    note lt = this
    show ?thesis
    proof (cases "actual_length u < pos + MCBA_USB_MSG_SIZE h")
      case True
      with lt 1(2) have "q = emit Err_format_error p" by simp
      then show ?thesis by simp
    next
      case False
      with lt 1(2)
      have "f h idm lay alloc_ok u (pos + MCBA_USB_MSG_SIZE h)
              (mcba_usb_process_rx h idm lay (alloc_ok pos) (drop pos (transfer_buffer u)) p) =
            Some q" by simp
      from 1(1) [OF this] show ?thesis by simp
    qed
  qed
qed

lemma read_bulk_callback_pool:
  assumes "mcba_usb_read_bulk_callback h idm lay alloc_ok retval u p = Some q"
  shows "tx_context q = tx_context p \<and> tx_submitted q = tx_submitted p"
proof (cases "present p")
  case False
  with assms show ?thesis by (simp add: mcba_usb_read_bulk_callback_def)
next
  case True
  note pr = this
  show ?thesis
  proof (cases "status u = 0")
    case True
    with pr assms obtain q' where l: "read_bulk_loop h idm lay alloc_ok u 0 p = Some q'"
      and q: "q = resubmit_urb retval q'"
      by (cases "read_bulk_loop h idm lay alloc_ok u 0 p")
         (simp_all add: mcba_usb_read_bulk_callback_def)
    from read_bulk_loop_pool [OF l] show ?thesis unfolding q by simp
  next
    case False
    note st = this
    show ?thesis
    proof (cases "status u = - ENOENT \<or> status u = - ESHUTDOWN")
      case True
      with pr st assms have "q = p" by (simp add: mcba_usb_read_bulk_callback_def)
      then show ?thesis by simp
    next
      case False
      with pr st assms
      have "q = resubmit_urb retval (emit (Info_rx_urb_aborted (status u)) p)"
        by (simp add: mcba_usb_read_bulk_callback_def)
      then show ?thesis by simp
    qed
  qed
qed

text \<open>The configuration calls touch the pool only through \<^verbatim>\<open>mcba_usb_xmit\<close>.\<close>

lemma set_bittiming_pool:
  assumes "mcba_net_set_bittiming h br env p = Some (r, q)"
  shows "(tx_context q = tx_context p \<and> tx_submitted q = tx_submitted p) \<or>
         (\<exists>m bt. q = snd (mcba_usb_xmit h m False env (p\<lparr>bittiming := bt\<rparr>)))"
proof (cases "find (\<lambda>c. fst c = bitrate (bittiming p)) (bitrate_cases br)")
  case None
  with assms have "q = emit (Err_unsupported_bitrate (bitrate (bittiming p))) p"
    by (simp add: mcba_net_set_bittiming_def)
  then show ?thesis by simp
next
  case (Some c)
  obtain label s1 s2 s3 s4 s5 rate where c: "c = (label, (s1, s2, s3, s4, s5), rate)"
    by (metis prod_cases3 prod_cases5)
  show ?thesis
  proof (cases "mcba_net_calc_bittiming s1 s2 s3 s4 s5 (bittiming p)")
    case None
    with assms Some c show ?thesis by (simp add: mcba_net_set_bittiming_def)
  next
    case (Some bt)
    with assms \<open>find (\<lambda>c. fst c = bitrate (bittiming p)) (bitrate_cases br) = Some c\<close> c
    have "q = mcba_usb_xmit_change_bitrate h rate env (p\<lparr>bittiming := bt\<rparr>)"
      by (simp add: mcba_net_set_bittiming_def)
    then have "q = snd (mcba_usb_xmit h
        (Msg_change_bitrate (MBCA_CMD_CHANGE_BIT_RATE h)
          (ucast (drop_bit 8 (0xff00 AND rate))) (ucast (0xff AND rate)))
        False env (p\<lparr>bittiming := bt\<rparr>))"
      by (simp only: mcba_usb_xmit_change_bitrate_def mcba_usb_xmit_cmd_def)
    then show ?thesis by blast
  qed
qed

lemma termination_store_pool:
  "termination_store h t env p = p \<or>
   (\<exists>m. termination_store h t env p =
           snd (mcba_usb_xmit h m False env (p\<lparr>termination_state := t\<rparr>)))"
proof (cases "t = 0 \<or> t = 1")
  case False
  then show ?thesis by (simp add: termination_store_def)
next
  case True
  then have "termination_store h t env p =
     snd (mcba_usb_xmit h (Msg_termination (MBCA_CMD_SETUP_TERMINATION_RESISTANCE h) t)
            False env (p\<lparr>termination_state := t\<rparr>))"
    by (simp only: termination_store_def mcba_usb_xmit_termination_def mcba_usb_xmit_cmd_def
        if_True)
  then show ?thesis by blast
qed

text \<open>Both invariants hold along every run of the driver.\<close>

lemma leaked_reach:
  assumes "driver_reach h idm lay br p0 q" "leaked h i p0"
  shows "leaked h i q"
  using assms
proof (induction rule: driver_reach.induct)
  case dr_start
  then show ?case by simp
next
  case (dr_xmit p m skb env)
  then show ?case by (simp add: leaked_xmit)
next
  case (dr_complete p k st)
  then show ?case by (simp add: leaked_complete)
next
  case (dr_rx p alloc_ok retval u q)
  from read_bulk_callback_pool [OF dr_rx(2)] dr_rx show ?case
    by (simp add: leaked_def)
next
  case (dr_bittiming p env r q)
  from dr_bittiming have l: "leaked h i p" by simp
  from set_bittiming_pool [OF dr_bittiming(2)] show ?case
  proof
    assume "tx_context q = tx_context p \<and> tx_submitted q = tx_submitted p"
    with l show ?thesis by (simp add: leaked_def)
  next
    assume "\<exists>m bt. q = snd (mcba_usb_xmit h m False env (p\<lparr>bittiming := bt\<rparr>))"
    then obtain m bt where q: "q = snd (mcba_usb_xmit h m False env (p\<lparr>bittiming := bt\<rparr>))"
      by blast
    from l have "leaked h i (p\<lparr>bittiming := bt\<rparr>)" by (simp add: leaked_def)
    then show ?thesis unfolding q by (rule leaked_xmit)
  qed
next
  case (dr_termination p t env)
  from dr_termination have l: "leaked h i p" by simp
  from termination_store_pool [of h t env p] show ?case
  proof
    assume "termination_store h t env p = p"
    with l show ?thesis by simp
  next
    assume "\<exists>m. termination_store h t env p =
           snd (mcba_usb_xmit h m False env (p\<lparr>termination_state := t\<rparr>))"
    then obtain m where q: "termination_store h t env p =
           snd (mcba_usb_xmit h m False env (p\<lparr>termination_state := t\<rparr>))" by blast
    from l have "leaked h i (p\<lparr>termination_state := t\<rparr>)" by (simp add: leaked_def)
    then show ?thesis unfolding q by (rule leaked_xmit)
  qed
qed

lemma urbs_ok_reach:
  assumes "driver_reach h idm lay br p0 q" "urbs_ok h p0"
  shows "urbs_ok h q"
  using assms
proof (induction rule: driver_reach.induct)
  case dr_start
  then show ?case by simp
next
  case (dr_xmit p m skb env)
  then show ?case by (simp add: urbs_ok_xmit)
next
  case (dr_complete p k st)
  then show ?case by (simp add: urbs_ok_complete)
next
  case (dr_rx p alloc_ok retval u q)
  from read_bulk_callback_pool [OF dr_rx(2)] dr_rx show ?case
    by (simp add: urbs_ok_def)
next
  case (dr_bittiming p env r q)
  from dr_bittiming have l: "urbs_ok h p" by simp
  from set_bittiming_pool [OF dr_bittiming(2)] show ?case
  proof
    assume "tx_context q = tx_context p \<and> tx_submitted q = tx_submitted p"
    with l show ?thesis by (simp add: urbs_ok_def)
  next
    assume "\<exists>m bt. q = snd (mcba_usb_xmit h m False env (p\<lparr>bittiming := bt\<rparr>))"
    then obtain m bt where q: "q = snd (mcba_usb_xmit h m False env (p\<lparr>bittiming := bt\<rparr>))"
      by blast
    from l have "urbs_ok h (p\<lparr>bittiming := bt\<rparr>)" by (simp add: urbs_ok_def)
    then show ?thesis unfolding q by (rule urbs_ok_xmit)
  qed
next
  case (dr_termination p t env)
  from dr_termination have l: "urbs_ok h p" by simp
  from termination_store_pool [of h t env p] show ?case
  proof
    assume "termination_store h t env p = p"
    with l show ?thesis by simp
  next
    assume "\<exists>m. termination_store h t env p =
           snd (mcba_usb_xmit h m False env (p\<lparr>termination_state := t\<rparr>))"
    then obtain m where q: "termination_store h t env p =
           snd (mcba_usb_xmit h m False env (p\<lparr>termination_state := t\<rparr>))" by blast
    from l have "urbs_ok h (p\<lparr>termination_state := t\<rparr>)" by (simp add: urbs_ok_def)
    then show ?thesis unfolding q by (rule urbs_ok_xmit)
  qed
qed

text \<open>
  Claim C10. Let the driver have been started with no transmit URB in flight and a free
  marker that is no index of the context array, and let it have run in any way since.
  If a transmit call then acquires context \<open>i\<close> and the URB allocation, the buffer
  allocation or the submission fails, the call returns \<^verbatim>\<open>NETDEV_TX_OK\<close>, the counter
  \<^verbatim>\<open>tx_dropped\<close> is one higher, no URB was added to the anchor, and context \<open>i\<close> stays
  occupied: it is occupied when the call returns and in every state the driver can reach
  afterwards, and no URB in flight ever holds it, so no completion releases it.
\<close>

theorem xmit_failure_leaks_context:
  assumes le: "MCBA_MAX_TX_URBS p0 \<le> MCBA_CTX_FREE h"
    and s0: "tx_submitted p0 = []"
    and r: "driver_reach h idm lay br (mcba_init_ctx h p0) p"
    and a: "fst (mcba_usb_get_free_ctx h p) = Some i"
    and f: "env = Urb_alloc_fails \<or> env = Buf_alloc_fails \<or>
            (\<exists>err. err \<noteq> 0 \<and> env = Submit_returns err)"
  shows "fst (mcba_usb_xmit h m skb env p) = NETDEV_TX_OK \<and>
         tx_dropped (stats (snd (mcba_usb_xmit h m skb env p))) = tx_dropped (stats p) + 1 \<and>
         ndx (tx_context (snd (mcba_usb_xmit h m skb env p)) ! i) = i \<and>
         i \<noteq> MCBA_CTX_FREE h \<and>
         tx_submitted (snd (mcba_usb_xmit h m skb env p)) = tx_submitted p \<and>
         (\<forall>q. driver_reach h idm lay br (snd (mcba_usb_xmit h m skb env p)) q \<longrightarrow>
              ndx (tx_context q ! i) \<noteq> MCBA_CTX_FREE h \<and>
              i \<notin> set (map fst (tx_submitted q)))"
proof -
  let ?q0 = "snd (mcba_usb_xmit h m skb env p)"
  have "urbs_ok h (mcba_init_ctx h p0)"
    using le s0 by (simp add: urbs_ok_def mcba_init_ctx_def)
  with r have ok: "urbs_ok h p" by (rule urbs_ok_reach)
  from f have ne: "env \<noteq> Submit_returns 0" by auto
  show ?thesis
  proof (cases rule: xmit_pool [where h = h and p = p and m = m and skb = skb and env = env])
    case busy
    with a show ?thesis by simp
  next
    case (taken k c)
    from taken(1) a have ki: "k = i" by simp
    from ok have len: "length (tx_context p) \<le> MCBA_CTX_FREE h" by (simp add: urbs_ok_def)
    from taken(2) len have kf: "k \<noteq> MCBA_CTX_FREE h" by simp
    from ok taken(3) have kn: "k \<notin> set (map fst (tx_submitted p))"
      by (auto simp: urbs_ok_def)
    have c: "ndx (tx_context ?q0 ! k) = k"
      using taken(2) taken(4) by (simp add: taken(6))
    have s: "tx_submitted ?q0 = tx_submitted p" using ne by (simp add: taken(7))
    have d: "tx_dropped (stats ?q0) = tx_dropped (stats p) + 1" using ne by (simp add: taken(8))
    have l: "leaked h k ?q0"
      using taken(2) c kf kn by (simp add: leaked_def s taken(6))
    have "\<forall>q. driver_reach h idm lay br ?q0 q \<longrightarrow>
              ndx (tx_context q ! k) \<noteq> MCBA_CTX_FREE h \<and> k \<notin> set (map fst (tx_submitted q))"
    proof (intro allI impI)
      fix q assume "driver_reach h idm lay br ?q0 q"
      from leaked_reach [OF this l]
      show "ndx (tx_context q ! k) \<noteq> MCBA_CTX_FREE h \<and> k \<notin> set (map fst (tx_submitted q))"
        by (simp add: leaked_def)
    qed
    with taken(5) d c kf s show ?thesis unfolding ki by blast
  qed
qed

text \<open>
  After the start, the first command meets a failing URB allocation and takes context 0
  with it; a second command is then sent with context 1 and completes, and context 0 is
  still occupied.
\<close>

theorem xmit_failure_leaks_context_witness:
  "fst (mcba_usb_get_free_ctx hdr_example
          (mcba_init_ctx hdr_example (probe_priv hdr_example 3))) = Some 0 \<and>
   fst (mcba_usb_xmit hdr_example (Msg_fw_ver 0xA9 1) False Urb_alloc_fails
          (mcba_init_ctx hdr_example (probe_priv hdr_example 3))) = NETDEV_TX_OK \<and>
   tx_dropped (stats (snd (mcba_usb_xmit hdr_example (Msg_fw_ver 0xA9 1) False Urb_alloc_fails
          (mcba_init_ctx hdr_example (probe_priv hdr_example 3))))) = 1 \<and>
   ndx (tx_context (snd (mcba_usb_xmit hdr_example (Msg_fw_ver 0xA9 1) False Urb_alloc_fails
          (mcba_init_ctx hdr_example (probe_priv hdr_example 3)))) ! 0) = 0 \<and>
   ndx (tx_context
          (tx_complete hdr_example 0 0
             (snd (mcba_usb_xmit hdr_example (Msg_fw_ver 0xA9 2) False (Submit_returns 0)
                (snd (mcba_usb_xmit hdr_example (Msg_fw_ver 0xA9 1) False Urb_alloc_fails
                   (mcba_init_ctx hdr_example (probe_priv hdr_example 3))))))) ! 0)
     \<noteq> MCBA_CTX_FREE hdr_example"
proof -
  let ?p = "mcba_init_ctx hdr_example (probe_priv hdr_example 3)"
  let ?failed = "snd (mcba_usb_xmit hdr_example (Msg_fw_ver 0xA9 1) False Urb_alloc_fails ?p)"
  let ?later = "tx_complete hdr_example 0 0
             (snd (mcba_usb_xmit hdr_example (Msg_fw_ver 0xA9 2) False (Submit_returns 0) ?failed))"
  have le: "MCBA_MAX_TX_URBS (probe_priv hdr_example 3) \<le> MCBA_CTX_FREE hdr_example"
    by (simp add: probe_priv_def hdr_example_def)
  have s0: "tx_submitted (probe_priv hdr_example 3) = []"
    by (simp add: probe_priv_def)
  have r: "driver_reach hdr_example idm lay br ?p ?p" for idm lay br
    by (rule dr_start)
  have a: "fst (mcba_usb_get_free_ctx hdr_example ?p) = Some 0"
    by (simp add: mcba_usb_get_free_ctx_def mcba_init_ctx_def probe_priv_def hdr_example_def
        get_free_ctx_from.simps numeral_3_eq_3)
  have f: "Urb_alloc_fails = Urb_alloc_fails \<or> Urb_alloc_fails = Buf_alloc_fails \<or>
           (\<exists>err. err \<noteq> 0 \<and> Urb_alloc_fails = Submit_returns err)"
    by simp
  have z: "tx_dropped (stats ?p) = 0"
    by (simp add: mcba_init_ctx_def probe_priv_def)
  have rq: "driver_reach hdr_example idm lay br ?failed ?later" for idm lay br
    by (intro dr_complete dr_xmit dr_start)
  note t = xmit_failure_leaks_context
    [where m = "Msg_fw_ver 0xA9 1" and skb = False, OF le s0 r a f]
  have c1: "fst (mcba_usb_xmit hdr_example (Msg_fw_ver 0xA9 1) False Urb_alloc_fails ?p) =
              NETDEV_TX_OK"
    using t by blast
  have c2: "tx_dropped (stats ?failed) = tx_dropped (stats ?p) + 1"
    using t by blast
  have c3: "ndx (tx_context ?failed ! 0) = 0"
    using t by blast
  have every: "driver_reach hdr_example idm lay br ?failed q \<Longrightarrow>
               ndx (tx_context q ! 0) \<noteq> MCBA_CTX_FREE hdr_example" for idm lay br q
    using t [of idm lay br] by blast
  have c4: "ndx (tx_context ?later ! 0) \<noteq> MCBA_CTX_FREE hdr_example"
    by (rule every [OF rq])
  from a c1 c2 c3 c4 z show ?thesis by simp
qed

subsection \<open>Bit timing without wrap-around\<close>

text \<open>
  Where no product exceeds 32 bits, the words that \<^verbatim>\<open>mcba_net_calc_bittiming\<close> computes
  are the values of the formulas over the natural numbers.
\<close>

lemma calc_bittiming_exact:
  fixes sjw' prp seg1 seg2 brp' :: u32
  defines "n \<equiv> unat sjw' + unat prp + unat seg1 + unat seg2"
  defines "t \<equiv> unat brp' * 1000 div 40"
  assumes b: "unat brp' * 1000 < 2 ^ 32"
    and m: "n * t < 2 ^ 32"
    and s: "(unat sjw' + unat prp + unat seg1) * 1000 < 2 ^ 32"
    and nz: "n * t \<noteq> 0"
  shows "\<exists>bt'. mcba_net_calc_bittiming sjw' prp seg1 seg2 brp' bt = Some bt' \<and>
           unat (tq bt') = t \<and>
           unat (bitrate bt') = 1000000000 div (n * t) \<and>
           unat (sample_point bt') = (unat sjw' + unat prp + unat seg1) * 1000 div n"
proof -
  from nz have n0: "n \<noteq> 0" and t0: "t \<noteq> 0" by auto
  have "n \<le> n * t" using t0 by (cases t) simp_all
  then have nlt: "n < 2 ^ 32" using m by (rule le_less_trans)
  have u3: "unat (sjw' + prp + seg1) = unat sjw' + unat prp + unat seg1"
    using nlt by (simp add: unat_word_ariths n_def)
  have un: "unat (sjw' + prp + seg1 + seg2) = n"
    using nlt u3 by (simp add: unat_word_ariths n_def)
  have ub: "unat (brp' * 1000) = unat brp' * 1000"
    using b by (simp add: unat_word_ariths)
  have ut: "unat ((brp' * 1000) div 40) = t"
    by (simp add: unat_div ub t_def)
  have um: "unat ((sjw' + prp + seg1 + seg2) * ((brp' * 1000) div 40)) = n * t"
  proof -
    have "unat (sjw' + prp + seg1 + seg2) * unat ((brp' * 1000) div 40) < 2 ^ LENGTH(32)"
      using m by (simp add: un ut)
    then have "unat ((sjw' + prp + seg1 + seg2) * ((brp' * 1000) div 40)) =
               unat (sjw' + prp + seg1 + seg2) * unat ((brp' * 1000) div 40)"
      by (rule unat_mult_lem [THEN iffD1])
    then show ?thesis by (simp only: un ut)
  qed
  have us: "unat ((sjw' + prp + seg1) * 1000) = (unat sjw' + unat prp + unat seg1) * 1000"
  proof -
    have "unat (sjw' + prp + seg1) * unat (1000 :: u32) < 2 ^ LENGTH(32)"
      using s by (simp add: u3)
    then have "unat ((sjw' + prp + seg1) * 1000) = unat (sjw' + prp + seg1) * unat (1000 :: u32)"
      by (rule unat_mult_lem [THEN iffD1])
    then show ?thesis by (simp add: u3)
  qed
  have wnz: "(sjw' + prp + seg1 + seg2) * ((brp' * 1000) div 40) \<noteq> 0"
    using um nz by (metis unat_0)
  have "unat (1000000000 div ((sjw' + prp + seg1 + seg2) * ((brp' * 1000) div 40))) =
          1000000000 div (n * t)"
    by (simp only: unat_div um) simp
  moreover have "unat (((sjw' + prp + seg1) * 1000) div (sjw' + prp + seg1 + seg2)) =
          (unat sjw' + unat prp + unat seg1) * 1000 div n"
    by (simp only: unat_div us un)
  ultimately show ?thesis
    using calc_bittiming_Some [OF wnz, of bt] ut by simp
qed

text \<open>The arguments of all 18 cases of the switch stay within these bounds.\<close>

lemma bitrate_cases_exact:
  "\<forall>c \<in> set (bitrate_cases br).
     (case c of (label, (s1, s2, s3, s4, s5), rate) \<Rightarrow>
        unat s5 * 1000 < 2 ^ 32 \<and>
        (unat s1 + unat s2 + unat s3 + unat s4) * (unat s5 * 1000 div 40) < 2 ^ 32 \<and>
        (unat s1 + unat s2 + unat s3) * 1000 < 2 ^ 32 \<and>
        (unat s1 + unat s2 + unat s3 + unat s4) * (unat s5 * 1000 div 40) \<noteq> 0)"
  by (simp add: bitrate_cases_def)

subsection \<open>Setting the bit timing: what is stored and what is sent\<close>

lemma find_distinct_row:
  "distinct (map fst xs) \<Longrightarrow> (b, r) \<in> set xs \<Longrightarrow> find (\<lambda>c. fst c = b) xs = Some (b, r)"
proof (induction xs)
  case Nil
  then show ?case by simp
next
  case (Cons x xs)
  show ?case
  proof (cases "fst x = b")
    case True
    with Cons.prems have "x = (b, r)" by (force simp: image_iff)
    then show ?thesis by simp
  next
    case False
    with Cons show ?thesis by auto
  qed
qed

lemma distinct_labels_card:
  "distinct (map fst (bitrate_cases br)) \<Longrightarrow> card (fst ` set (bitrate_cases br)) = 18"
  using distinct_card [of "map fst (bitrate_cases br)"] by (simp add: bitrate_cases_length)

lemma xmit_bittiming:
  "bittiming (snd (mcba_usb_xmit h m skb env p)) = bittiming p"
proof (cases h p rule: get_free_ctx_cases)
  case none
  then show ?thesis by (simp add: mcba_usb_xmit_def emit_def)
next
  case (some k)
  then show ?thesis
    by (simp add: mcba_usb_xmit_def Let_def emit_def xmit_nomem_def netif_device_detach_def
        split: usb_env.splits)
qed

lemma set_bittiming_row:
  assumes d: "distinct (map fst (bitrate_cases br))"
    and r: "(bitrate (bittiming p), (s1, s2, s3, s4, s5), rate) \<in> set (bitrate_cases br)"
  shows "mcba_net_set_bittiming h br env p =
           Some (0, snd (mcba_usb_xmit h
                     (Msg_change_bitrate (MBCA_CMD_CHANGE_BIT_RATE h)
                        (ucast (drop_bit 8 (0xff00 AND rate))) (ucast (0xff AND rate)))
                     False env
                     (p\<lparr>bittiming := (bittiming p)
                          \<lparr>sjw := s1, prop_seg := s2, phase_seg1 := s3, phase_seg2 := s4,
                           brp := s5, tq := (s5 * 1000) div 40,
                           bitrate := 1000000000 div ((s1 + s2 + s3 + s4) * ((s5 * 1000) div 40)),
                           sample_point := ((s1 + s2 + s3) * 1000) div (s1 + s2 + s3 + s4)\<rparr>\<rparr>)))"
proof -
  have f: "find (\<lambda>c. fst c = bitrate (bittiming p)) (bitrate_cases br) =
             Some (bitrate (bittiming p), (s1, s2, s3, s4, s5), rate)"
    using d r by (rule find_distinct_row)
  have nz: "(s1 + s2 + s3 + s4) * ((s5 * 1000) div 40) \<noteq> 0"
    using r by (rule bitrate_cases_calc)
  note c = calc_bittiming_Some [OF nz, of "bittiming p"]
  show ?thesis
    unfolding mcba_net_set_bittiming_def f
    by (simp add: c mcba_usb_xmit_change_bitrate_def mcba_usb_xmit_cmd_def)
qed

lemma xmit_first_free:
  assumes "first_free h p k"
  shows "tx_submitted (snd (mcba_usb_xmit h m skb env p)) =
           (if env = Submit_returns 0 then tx_submitted p @ [(k, m)] else tx_submitted p)"
    and "ndx (tx_context (snd (mcba_usb_xmit h m skb env p)) ! k) = k"
proof -
  from assms have k: "k < length (tx_context p)"
    and f: "ndx (tx_context p ! k) = MCBA_CTX_FREE h"
    and b: "\<And>j. j < k \<Longrightarrow> ndx (tx_context p ! j) \<noteq> MCBA_CTX_FREE h"
    by (auto simp: first_free_def)
  have g: "fst (mcba_usb_get_free_ctx h p) = Some k"
    using get_free_ctx_Some [OF k f b] by simp
  show "tx_submitted (snd (mcba_usb_xmit h m skb env p)) =
           (if env = Submit_returns 0 then tx_submitted p @ [(k, m)] else tx_submitted p)"
  proof (cases rule: xmit_pool [where h = h and p = p and m = m and skb = skb and env = env])
    case busy
    with g show ?thesis by simp
  next
    case (taken k' c)
    with g have "k' = k" by simp
    with taken(7) show ?thesis by simp
  qed
  show "ndx (tx_context (snd (mcba_usb_xmit h m skb env p)) ! k) = k"
  proof (cases rule: xmit_pool [where h = h and p = p and m = m and skb = skb and env = env])
    case busy
    with g show ?thesis by simp
  next
    case (taken k' c)
    with g have "k' = k" by simp
    with taken(4,6) k show ?thesis by simp
  qed
qed

lemma xmit_nothing_sent:
  assumes "none_free h p \<or> env \<noteq> Submit_returns 0"
  shows "tx_submitted (snd (mcba_usb_xmit h m skb env p)) = tx_submitted p"
proof (cases rule: xmit_pool [where h = h and p = p and m = m and skb = skb and env = env])
  case busy
  then show ?thesis by simp
next
  case (taken k c)
  from taken(2,3) have "\<not> none_free h p" by (auto simp: none_free_def)
  with assms have "env \<noteq> Submit_returns 0" by simp
  with taken(7) show ?thesis by simp
qed

lemma documented_labels_distinct:
  "distinct (map fst (bitrate_cases documented_bitrates))"
  by (simp add: bitrate_cases_def documented_bitrates_def)

lemma exhausted_example_pool:
  "map ndx (tx_context exhausted_example) = [0, 1, 2]"
  "tx_submitted exhausted_example = []"
  by (simp_all add: exhausted_example_def mcba_usb_xmit_def mcba_usb_get_free_ctx_def
      mcba_init_ctx_def probe_priv_def hdr_example_def get_free_ctx_from.simps numeral_3_eq_3
      xmit_nomem_def emit_def Let_def)

lemma example_row:
  "(bitrate (bittiming (requested_bitrate 20000 p)), (1, 5, 8, 6, 100), 20)
     \<in> set (bitrate_cases documented_bitrates)"
  by (simp add: requested_bitrate_def bitrate_cases_def documented_bitrates_def)

lemma requested_bitrate_fields [simp]:
  "tx_context (requested_bitrate b p) = tx_context p"
  "tx_submitted (requested_bitrate b p) = tx_submitted p"
  "bitrate (bittiming (requested_bitrate b p)) = b"
  by (simp_all add: requested_bitrate_def)

text \<open>
  Claim C5, amended. Case labels are pairwise distinct, as C demands, so exactly 18
  bitrates are supported; with the labels the error message documents they are 20000,
  33333, ... , 1000000. For the bitrate of a case, \<^verbatim>\<open>mcba_net_set_bittiming\<close> returns 0
  and stores the bit timing that the formulas give for the arguments of that case. It
  hands the change-bitrate command with that case's value to the transmit path: the
  command is submitted, with the first free context, when there is one and the USB core
  accepts the URB; when no context is free, or an allocation or the submission fails,
  nothing is submitted and the call returns 0 all the same. For any other bitrate it
  returns \<open>- EINVAL\<close> and only logs the error: the bit timing, the contexts and the URBs
  in flight are as before.
\<close>

theorem set_bittiming_cases:
  assumes d: "distinct (map fst (bitrate_cases br))"
  shows "card (fst ` set (bitrate_cases br)) = 18 \<and>
    (\<forall>s1 s2 s3 s4 s5 rate.
       (bitrate (bittiming p), (s1, s2, s3, s4, s5), rate) \<in> set (bitrate_cases br) \<longrightarrow>
       (\<exists>q. mcba_net_set_bittiming h br env p = Some (0, q) \<and>
            bittiming q = (bittiming p)
              \<lparr>sjw := s1, prop_seg := s2, phase_seg1 := s3, phase_seg2 := s4,
               brp := s5, tq := (s5 * 1000) div 40,
               bitrate := 1000000000 div ((s1 + s2 + s3 + s4) * ((s5 * 1000) div 40)),
               sample_point := ((s1 + s2 + s3) * 1000) div (s1 + s2 + s3 + s4)\<rparr> \<and>
            (\<forall>k. first_free h p k \<and> env = Submit_returns 0 \<longrightarrow>
                 tx_submitted q = tx_submitted p @
                   [(k, Msg_change_bitrate (MBCA_CMD_CHANGE_BIT_RATE h)
                          (ucast (drop_bit 8 (0xff00 AND rate))) (ucast (0xff AND rate)))] \<and>
                 ndx (tx_context q ! k) = k) \<and>
            (none_free h p \<or> env \<noteq> Submit_returns 0 \<longrightarrow>
                 tx_submitted q = tx_submitted p))) \<and>
    (bitrate (bittiming p) \<notin> fst ` set (bitrate_cases br) \<longrightarrow>
       mcba_net_set_bittiming h br env p =
         Some (- EINVAL, emit (Err_unsupported_bitrate (bitrate (bittiming p))) p) \<and>
       bittiming (emit (Err_unsupported_bitrate (bitrate (bittiming p))) p) = bittiming p \<and>
       tx_context (emit (Err_unsupported_bitrate (bitrate (bittiming p))) p) = tx_context p \<and>
       tx_submitted (emit (Err_unsupported_bitrate (bitrate (bittiming p))) p) = tx_submitted p) \<and>
    (br = documented_bitrates \<longrightarrow>
       fst ` set (bitrate_cases br) =
         {20000, 33333, 50000, 80000, 83333, 100000, 125000, 150000, 175000, 200000, 225000,
          250000, 275000, 300000, 500000, 625000, 800000, 1000000})"
proof (intro conjI allI impI)
  show "card (fst ` set (bitrate_cases br)) = 18"
    using d by (rule distinct_labels_card)
next
  fix s1 s2 s3 s4 s5 rate
  assume r: "(bitrate (bittiming p), (s1, s2, s3, s4, s5), rate) \<in> set (bitrate_cases br)"
  let ?bt = "(bittiming p)
              \<lparr>sjw := s1, prop_seg := s2, phase_seg1 := s3, phase_seg2 := s4,
               brp := s5, tq := (s5 * 1000) div 40,
               bitrate := 1000000000 div ((s1 + s2 + s3 + s4) * ((s5 * 1000) div 40)),
               sample_point := ((s1 + s2 + s3) * 1000) div (s1 + s2 + s3 + s4)\<rparr>"
  let ?m = "Msg_change_bitrate (MBCA_CMD_CHANGE_BIT_RATE h)
              (ucast (drop_bit 8 (0xff00 AND rate))) (ucast (0xff AND rate))"
  let ?p' = "p\<lparr>bittiming := ?bt\<rparr>"
  let ?r = "snd (mcba_usb_xmit h ?m False env ?p')"
  have res: "mcba_net_set_bittiming h br env p = Some (0, ?r)"
    using d r by (rule set_bittiming_row)
  have bt: "bittiming ?r = ?bt"
    by (simp only: xmit_bittiming) simp
  have ff: "first_free h (p\<lparr>bittiming := b\<rparr>) k = first_free h p k" for k b
    by (simp add: first_free_def)
  have nf: "none_free h (p\<lparr>bittiming := b\<rparr>) = none_free h p" for b
    by (simp add: none_free_def)
  have sub: "tx_submitted (p\<lparr>bittiming := b\<rparr>) = tx_submitted p" for b
    by simp
  have sent: "\<forall>k. first_free h p k \<and> env = Submit_returns 0 \<longrightarrow>
                 tx_submitted ?r = tx_submitted p @ [(k, ?m)] \<and> ndx (tx_context ?r ! k) = k"
  proof (intro allI impI)
    fix k assume a: "first_free h p k \<and> env = Submit_returns 0"
    then have f': "first_free h ?p' k" by (simp only: ff)
    from xmit_first_free [OF f', of ?m False env] a
    show "tx_submitted ?r = tx_submitted p @ [(k, ?m)] \<and> ndx (tx_context ?r ! k) = k"
      by (simp only: sub if_True simp_thms)
  qed
  have unsent: "none_free h p \<or> env \<noteq> Submit_returns 0 \<longrightarrow> tx_submitted ?r = tx_submitted p"
  proof
    assume "none_free h p \<or> env \<noteq> Submit_returns 0"
    then have "none_free h ?p' \<or> env \<noteq> Submit_returns 0" by (simp only: nf)
    from xmit_nothing_sent [OF this, of ?m False] show "tx_submitted ?r = tx_submitted p"
      by (simp only: sub)
  qed
  from res bt sent unsent
  show "\<exists>q. mcba_net_set_bittiming h br env p = Some (0, q) \<and>
            bittiming q = ?bt \<and>
            (\<forall>k. first_free h p k \<and> env = Submit_returns 0 \<longrightarrow>
                 tx_submitted q = tx_submitted p @ [(k, ?m)] \<and> ndx (tx_context q ! k) = k) \<and>
            (none_free h p \<or> env \<noteq> Submit_returns 0 \<longrightarrow>
                 tx_submitted q = tx_submitted p)"
    by (intro exI [of _ ?r] conjI)
next
  assume "bitrate (bittiming p) \<notin> fst ` set (bitrate_cases br)"
  then show "mcba_net_set_bittiming h br env p =
         Some (- EINVAL, emit (Err_unsupported_bitrate (bitrate (bittiming p))) p)"
    by (rule set_bittiming_unsupported)
next
  assume "br = documented_bitrates"
  then show "fst ` set (bitrate_cases br) =
         {20000, 33333, 50000, 80000, 83333, 100000, 125000, 150000, 175000, 200000, 225000,
          250000, 275000, 300000, 500000, 625000, 800000, 1000000}"
    by (simp add: documented_bitrates_labels)
qed (simp_all add: emit_def)

text \<open>
  After the start 20000 bit/s is accepted: 2500 ns, 20000 bit/s, 700 per mille, and the
  command with the bytes 0 and 20 is in flight with context 0. The bitrates 10000 and
  1000001 are refused.
\<close>

theorem set_bittiming_cases_witness:
  "(\<exists>q. mcba_net_set_bittiming hdr_example documented_bitrates (Submit_returns 0)
           (requested_bitrate 20000 (mcba_init_ctx hdr_example (probe_priv hdr_example 3))) =
           Some (0, q) \<and>
         tq (bittiming q) = 2500 \<and> bitrate (bittiming q) = 20000 \<and>
         sample_point (bittiming q) = 700 \<and>
         tx_submitted q = [(0, Msg_change_bitrate 0xA1 0 20)] \<and>
         ndx (tx_context q ! 0) = 0) \<and>
   (\<forall>env. mcba_net_set_bittiming hdr_example documented_bitrates env
            (requested_bitrate 10000 (probe_priv hdr_example 3)) =
            Some (- 22, emit (Err_unsupported_bitrate 10000)
                          (requested_bitrate 10000 (probe_priv hdr_example 3)))) \<and>
   (\<forall>env. mcba_net_set_bittiming hdr_example documented_bitrates env
            (requested_bitrate 1000001 (probe_priv hdr_example 3)) =
            Some (- 22, emit (Err_unsupported_bitrate 1000001)
                          (requested_bitrate 1000001 (probe_priv hdr_example 3))))"
proof (intro conjI allI)
  let ?p = "requested_bitrate 20000 (mcba_init_ctx hdr_example (probe_priv hdr_example 3))"
  note t = set_bittiming_cases [where br = documented_bitrates and h = hdr_example and p = ?p
      and env = "Submit_returns 0", OF documented_labels_distinct]
  from t have "\<forall>s1 s2 s3 s4 s5 rate.
       (bitrate (bittiming ?p), (s1, s2, s3, s4, s5), rate) \<in> set (bitrate_cases documented_bitrates) \<longrightarrow>
       (\<exists>q. mcba_net_set_bittiming hdr_example documented_bitrates (Submit_returns 0) ?p = Some (0, q) \<and>
            bittiming q = (bittiming ?p)
              \<lparr>sjw := s1, prop_seg := s2, phase_seg1 := s3, phase_seg2 := s4,
               brp := s5, tq := (s5 * 1000) div 40,
               bitrate := 1000000000 div ((s1 + s2 + s3 + s4) * ((s5 * 1000) div 40)),
               sample_point := ((s1 + s2 + s3) * 1000) div (s1 + s2 + s3 + s4)\<rparr> \<and>
            (\<forall>k. first_free hdr_example ?p k \<and> Submit_returns 0 = Submit_returns 0 \<longrightarrow>
                 tx_submitted q = tx_submitted ?p @
                   [(k, Msg_change_bitrate (MBCA_CMD_CHANGE_BIT_RATE hdr_example)
                          (ucast (drop_bit 8 (0xff00 AND rate))) (ucast (0xff AND rate)))] \<and>
                 ndx (tx_context q ! k) = k) \<and>
            (none_free hdr_example ?p \<or> Submit_returns 0 \<noteq> Submit_returns 0 \<longrightarrow>
                 tx_submitted q = tx_submitted ?p))"
    by (rule conjunct2 [THEN conjunct1])
  from this [rule_format, OF example_row]
  obtain q where q: "mcba_net_set_bittiming hdr_example documented_bitrates (Submit_returns 0) ?p =
        Some (0, q)"
    and b: "bittiming q = (bittiming ?p)
              \<lparr>sjw := 1, prop_seg := 5, phase_seg1 := 8, phase_seg2 := 6,
               brp := 100, tq := (100 * 1000) div 40,
               bitrate := 1000000000 div ((1 + 5 + 8 + 6) * ((100 * 1000) div 40)),
               sample_point := ((1 + 5 + 8) * 1000) div (1 + 5 + 8 + 6)\<rparr>"
    and s: "\<And>k. first_free hdr_example ?p k \<Longrightarrow>
              tx_submitted q = tx_submitted ?p @
                   [(k, Msg_change_bitrate (MBCA_CMD_CHANGE_BIT_RATE hdr_example)
                          (ucast (drop_bit 8 (0xff00 AND (20 :: u16)))) (ucast (0xff AND (20 :: u16))))] \<and>
              ndx (tx_context q ! k) = k"
    by auto
  have f: "first_free hdr_example ?p 0"
    by (simp add: first_free_def mcba_init_ctx_def probe_priv_def hdr_example_def)
  have e: "tx_submitted (mcba_init_ctx hdr_example (probe_priv hdr_example 3)) = []"
    by (simp add: mcba_init_ctx_def probe_priv_def)
  have c: "MBCA_CMD_CHANGE_BIT_RATE hdr_example = 0xA1"
    by (simp add: hdr_example_def)
  from s [OF f] have s0: "tx_submitted q = [(0, Msg_change_bitrate 0xA1 0 20)]"
    and n0: "ndx (tx_context q ! 0) = 0"
    by (simp_all add: e c)
  from b have v: "tq (bittiming q) = 2500" "bitrate (bittiming q) = 20000"
    "sample_point (bittiming q) = 700"
    by simp_all
  from q v s0 n0
  show "\<exists>q. mcba_net_set_bittiming hdr_example documented_bitrates (Submit_returns 0) ?p =
           Some (0, q) \<and>
         tq (bittiming q) = 2500 \<and> bitrate (bittiming q) = 20000 \<and>
         sample_point (bittiming q) = 700 \<and>
         tx_submitted q = [(0, Msg_change_bitrate 0xA1 0 20)] \<and>
         ndx (tx_context q ! 0) = 0"
    by blast
next
  fix env
  let ?p = "requested_bitrate 10000 (probe_priv hdr_example 3)"
  have n: "bitrate (bittiming ?p) \<notin> fst ` set (bitrate_cases documented_bitrates)"
    by (simp add: documented_bitrates_labels)
  from set_bittiming_cases [where br = documented_bitrates and h = hdr_example and p = ?p
      and env = env, OF documented_labels_distinct] n
  show "mcba_net_set_bittiming hdr_example documented_bitrates env ?p =
            Some (- 22, emit (Err_unsupported_bitrate 10000) ?p)"
    by (simp add: EINVAL_def)
next
  fix env
  let ?p = "requested_bitrate 1000001 (probe_priv hdr_example 3)"
  have n: "bitrate (bittiming ?p) \<notin> fst ` set (bitrate_cases documented_bitrates)"
    by (simp add: documented_bitrates_labels)
  from set_bittiming_cases [where br = documented_bitrates and h = hdr_example and p = ?p
      and env = env, OF documented_labels_distinct] n
  show "mcba_net_set_bittiming hdr_example documented_bitrates env ?p =
            Some (- 22, emit (Err_unsupported_bitrate 1000001) ?p)"
    by (simp add: EINVAL_def)
qed

text \<open>
  The claim as stated fails: 20000 bit/s is accepted with the return value 0 although no
  command is sent, once because the URB allocation fails and once because no context is
  free.
\<close>

theorem set_bittiming_returns_zero_unsent:
  "(\<exists>q. mcba_net_set_bittiming hdr_example documented_bitrates Urb_alloc_fails
           (requested_bitrate 20000 (mcba_init_ctx hdr_example (probe_priv hdr_example 3))) =
           Some (0, q) \<and>
         tx_submitted q = []) \<and>
   (\<exists>q. mcba_net_set_bittiming hdr_example documented_bitrates (Submit_returns 0)
           (requested_bitrate 20000 exhausted_example) = Some (0, q) \<and>
         tx_submitted q = [])"
proof (intro conjI)
  let ?p = "requested_bitrate 20000 (mcba_init_ctx hdr_example (probe_priv hdr_example 3))"
  let ?m = "Msg_change_bitrate (MBCA_CMD_CHANGE_BIT_RATE hdr_example)
              (ucast (drop_bit 8 (0xff00 AND (20 :: u16)))) (ucast (0xff AND (20 :: u16)))"
  note r = set_bittiming_row [where h = hdr_example and env = Urb_alloc_fails,
      OF documented_labels_distinct example_row]
  have e: "none_free hdr_example x \<or> Urb_alloc_fails \<noteq> Submit_returns 0" for x by simp
  have s: "tx_submitted ?p = []" by (simp add: mcba_init_ctx_def probe_priv_def)
  show "\<exists>q. mcba_net_set_bittiming hdr_example documented_bitrates Urb_alloc_fails ?p =
           Some (0, q) \<and> tx_submitted q = []"
    by (intro exI conjI, rule r)
       (simp add: xmit_nothing_sent [OF e] mcba_init_ctx_def probe_priv_def)
next
  let ?p = "requested_bitrate 20000 exhausted_example"
  note r = set_bittiming_row [where h = hdr_example and env = "Submit_returns 0",
      OF documented_labels_distinct example_row]
  have n: "none_free hdr_example (exhausted_example\<lparr>bittiming := b\<rparr>)" for b
  proof -
    have l: "length (tx_context exhausted_example) = 3"
      using exhausted_example_pool(1) by (metis length_map length_Cons list.size(3) numeral_3_eq_3)
    have "ndx (tx_context exhausted_example ! j) = [0, 1, 2] ! j" if "j < 3" for j
      using exhausted_example_pool(1) that l by (metis nth_map)
    then show ?thesis
      by (auto simp: none_free_def l hdr_example_def less_Suc_eq numeral_3_eq_3)
  qed
  have e: "none_free hdr_example (?p\<lparr>bittiming := b\<rparr>) \<or> Submit_returns 0 \<noteq> Submit_returns 0"
    for b using n [of b] by (simp add: none_free_def)
  show "\<exists>q. mcba_net_set_bittiming hdr_example documented_bitrates (Submit_returns 0) ?p =
           Some (0, q) \<and> tx_submitted q = []"
    by (intro exI conjI, rule r) (simp add: xmit_nothing_sent [OF e] exhausted_example_pool(2))
qed

end
